theory Spec2Isabelle
  imports Main
begin

section \<open>JavaScript values\<close>

text \<open>
  The server of \<^verbatim>\<open>src/index.ts\<close> moves JSON values between an MCP client and the DeepL
  HTTP API. A value is modelled by the datatype below; JavaScript's \<^verbatim>\<open>undefined\<close> (a
  missing member, an omitted argument) is \<open>None\<close> of \<open>json option\<close>.

  \<^item> An object lists its members in enumeration order; the keys of an object that
    JavaScript can hold are distinct.
  \<^item> A number is an integer, printed in decimal; fractions and doubles beyond the
    integers are outside the model.
  \<^item> A character is a code unit below 256.
\<close>

datatype json =
    JNull
  | JBool bool
  | JNum int
  | JStr string
  | JArr "json list"
  | JObj "(string \<times> json) list"

text \<open>ToBoolean, the test behind \<^verbatim>\<open>x ? a : b\<close>, \<^verbatim>\<open>x && y\<close> and \<^verbatim>\<open>x || y\<close>.\<close>

fun truthy :: "json option \<Rightarrow> bool" where
  "truthy None = False"
| "truthy (Some JNull) = False"
| "truthy (Some (JBool b)) = b"
| "truthy (Some (JNum n)) = (n \<noteq> 0)"
| "truthy (Some (JStr s)) = (s \<noteq> [])"
| "truthy (Some (JArr xs)) = True"
| "truthy (Some (JObj kvs)) = True"

text \<open>
  Optional member access \<^verbatim>\<open>v?.k\<close> for a key \<open>k\<close> that no prototype defines (here
  \<^verbatim>\<open>message\<close>): \<^verbatim>\<open>undefined\<close> on \<^verbatim>\<open>undefined\<close> and \<^verbatim>\<open>null\<close>, the own member of an object,
  \<^verbatim>\<open>undefined\<close> on every other value.
\<close>

fun get_opt :: "json option \<Rightarrow> string \<Rightarrow> json option" where
  "get_opt (Some (JObj kvs)) k = map_of kvs k"
| "get_opt _ k = None"

subsection \<open>Decimal numerals and ToString\<close>

definition digit_char :: "nat \<Rightarrow> char" where
  "digit_char d =
     (if d = 0 then CHR ''0'' else if d = 1 then CHR ''1'' else if d = 2 then CHR ''2''
      else if d = 3 then CHR ''3'' else if d = 4 then CHR ''4'' else if d = 5 then CHR ''5''
      else if d = 6 then CHR ''6'' else if d = 7 then CHR ''7'' else if d = 8 then CHR ''8''
      else CHR ''9'')"

function show_nat :: "nat \<Rightarrow> string" where
  "show_nat n = (if n < 10 then [digit_char n] else show_nat (n div 10) @ [digit_char (n mod 10)])"
  by pat_completeness auto
termination
  by (relation "measure id") auto

declare show_nat.simps [simp del]

definition show_int :: "int \<Rightarrow> string" where
  "show_int i = (if i < 0 then CHR ''-'' # show_nat (nat (- i)) else show_nat (nat i))"

fun join :: "string \<Rightarrow> string list \<Rightarrow> string" where
  "join sep [] = []"
| "join sep [x] = x"
| "join sep (x # y # ys) = x @ sep @ join sep (y # ys)"

text \<open>
  ToString, as a template literal \<^verbatim>\<open>`${v}`\<close> applies it. A string is itself. An array
  joins its elements with commas, \<^verbatim>\<open>null\<close> elements printing as nothing. An object prints
  as \<^verbatim>\<open>[object Object]\<close> through \<^verbatim>\<open>Object.prototype.toString\<close>, unless it has a member
  \<^verbatim>\<open>toString\<close> of its own: a member read from JSON is never a function, so the
  conversion finds no method that yields a primitive value and throws a TypeError.
  \<open>None\<close> is that TypeError; an array throws when one of its elements does.
\<close>

fun js_to_string :: "json \<Rightarrow> string option" where
  "js_to_string JNull = Some ''null''"
| "js_to_string (JBool b) = Some (if b then ''true'' else ''false'')"
| "js_to_string (JNum n) = Some (show_int n)"
| "js_to_string (JStr s) = Some s"
| "js_to_string (JArr xs) =
     map_option (join '','')
       (those (map (\<lambda>x. if x = JNull then Some [] else js_to_string x) xs))"
| "js_to_string (JObj kvs) =
     (if map_of kvs ''toString'' = None then Some ''[object Object]'' else None)"

text \<open>\<^verbatim>\<open>String(v)\<close>, where \<open>v\<close> may be \<^verbatim>\<open>undefined\<close>; it throws as ToString does.\<close>

definition js_String :: "json option \<Rightarrow> string option" where
  "js_String v = (case v of None \<Rightarrow> Some ''undefined'' | Some j \<Rightarrow> js_to_string j)"

subsection \<open>JSON.stringify\<close>

definition hex_digit :: "nat \<Rightarrow> char" where
  "hex_digit d =
     (if d < 10 then digit_char d
      else if d = 10 then CHR ''a'' else if d = 11 then CHR ''b'' else if d = 12 then CHR ''c''
      else if d = 13 then CHR ''d'' else if d = 14 then CHR ''e'' else CHR ''f'')"

text \<open>QuoteJSONString on one code unit.\<close>

definition quote_char :: "char \<Rightarrow> string" where
  "quote_char c =
     (if c = CHR 0x22 then [CHR 0x5C, CHR 0x22]
      else if c = CHR 0x5C then [CHR 0x5C, CHR 0x5C]
      else if c = CHR 0x08 then [CHR 0x5C, CHR ''b'']
      else if c = CHR 0x09 then [CHR 0x5C, CHR ''t'']
      else if c = CHR 0x0A then [CHR 0x5C, CHR ''n'']
      else if c = CHR 0x0C then [CHR 0x5C, CHR ''f'']
      else if c = CHR 0x0D then [CHR 0x5C, CHR ''r'']
      else if of_char c < (32 :: nat) then
        [CHR 0x5C, CHR ''u'', CHR ''0'', CHR ''0'',
         hex_digit (of_char c div 16), hex_digit (of_char c mod 16)]
      else [c])"

definition quote :: "string \<Rightarrow> string" where
  "quote s = CHR 0x22 # concat (map quote_char s) @ [CHR 0x22]"

text \<open>
  SerializeJSONProperty with its two strings: \<open>gap\<close>, the indentation unit, and
  \<open>indent\<close>, the current indentation. An empty \<open>gap\<close> gives the compact form.
\<close>

fun serialize :: "string \<Rightarrow> string \<Rightarrow> json \<Rightarrow> string" where
  "serialize gap indent JNull = ''null''"
| "serialize gap indent (JBool b) = (if b then ''true'' else ''false'')"
| "serialize gap indent (JNum n) = show_int n"
| "serialize gap indent (JStr s) = quote s"
| "serialize gap indent (JArr xs) =
     (if xs = [] then ''[]''
      else if gap = [] then
        ''['' @ join '','' (map (serialize gap (indent @ gap)) xs) @ '']''
      else
        ''['' @ [CHR 0x0A] @ indent @ gap
          @ join ('','' @ [CHR 0x0A] @ indent @ gap) (map (serialize gap (indent @ gap)) xs)
          @ [CHR 0x0A] @ indent @ '']'')"
| "serialize gap indent (JObj kvs) =
     (if kvs = [] then ''{}''
      else if gap = [] then
        ''{'' @ join '',''
                 (map (\<lambda>(k, v). quote k @ '':'' @ serialize gap (indent @ gap) v) kvs) @ ''}''
      else
        ''{'' @ [CHR 0x0A] @ indent @ gap
          @ join ('','' @ [CHR 0x0A] @ indent @ gap)
                 (map (\<lambda>(k, v). quote k @ '': '' @ serialize gap (indent @ gap) v) kvs)
          @ [CHR 0x0A] @ indent @ ''}'')"

text \<open>
  \<^verbatim>\<open>JSON.stringify(value, null, space)\<close>: \<^verbatim>\<open>undefined\<close> for \<^verbatim>\<open>undefined\<close>; the gap is
  \<open>space\<close> blanks, at most ten. \<^verbatim>\<open>JSON.stringify(value)\<close> is the call with \<open>space = 0\<close>.
\<close>

definition JSON_stringify :: "json option \<Rightarrow> nat \<Rightarrow> string option" where
  "JSON_stringify value space =
     map_option (serialize (replicate (min 10 space) CHR '' '') []) value"

section \<open>Input schemas\<close>

text \<open>
  The two schemas are written with the zod library. What \<^verbatim>\<open>parse\<close> reports when it
  rejects a value is a list of issues, each with the path of the offending member; an
  issue keeps the data zod records for it.
\<close>

datatype path_elem = Key string | Index nat

datatype zod_issue =
    Invalid_type "path_elem list" string string
  | Too_small "path_elem list" nat string
  | Invalid_enum_value "path_elem list" "string list" string

text \<open>The name zod gives to the runtime type of a value.\<close>

fun getParsedType :: "json option \<Rightarrow> string" where
  "getParsedType None = ''undefined''"
| "getParsedType (Some JNull) = ''null''"
| "getParsedType (Some (JBool b)) = ''boolean''"
| "getParsedType (Some (JNum n)) = ''number''"
| "getParsedType (Some (JStr s)) = ''string''"
| "getParsedType (Some (JArr xs)) = ''array''"
| "getParsedType (Some (JObj kvs)) = ''object''"

type_synonym 'a schema = "path_elem list \<Rightarrow> json option \<Rightarrow> zod_issue list + 'a"

fun issues_of :: "zod_issue list + 'a \<Rightarrow> zod_issue list" where
  "issues_of (Inl is) = is"
| "issues_of (Inr v) = []"

text \<open>\<^verbatim>\<open>z.string()\<close>: any string, the empty one included.\<close>

fun z_string :: "string schema" where
  "z_string p (Some (JStr s)) = Inr s"
| "z_string p v = Inl [Invalid_type p ''string'' (getParsedType v)]"

text \<open>\<^verbatim>\<open>.optional()\<close>: \<^verbatim>\<open>undefined\<close> passes; every other value, \<^verbatim>\<open>null\<close> included, goes to
  the inner schema.\<close>

fun z_optional :: "'a schema \<Rightarrow> 'a option schema" where
  "z_optional inner p None = Inr None"
| "z_optional inner p (Some v) =
     (case inner p (Some v) of Inl is \<Rightarrow> Inl is | Inr a \<Rightarrow> Inr (Some a))"

text \<open>\<^verbatim>\<open>z.enum([...])\<close>: a string among the listed ones.\<close>

fun z_enum :: "string list \<Rightarrow> string schema" where
  "z_enum options p (Some (JStr s)) =
     (if s \<in> set options then Inr s else Inl [Invalid_enum_value p options s])"
| "z_enum options p v =
     Inl [Invalid_type p (join '' | '' (map (\<lambda>s. [CHR 0x27] @ s @ [CHR 0x27]) options))
            (getParsedType v)]"

text \<open>The elements of an array against the element schema, each under its index.\<close>

fun z_items :: "'a schema \<Rightarrow> path_elem list \<Rightarrow> nat \<Rightarrow> json list \<Rightarrow> (zod_issue list + 'a) list" where
  "z_items inner p i [] = []"
| "z_items inner p i (x # xs) = inner (p @ [Index i]) (Some x) # z_items inner p (Suc i) xs"

fun values_of :: "(zod_issue list + 'a) list \<Rightarrow> 'a list" where
  "values_of [] = []"
| "values_of (Inr a # rs) = a # values_of rs"
| "values_of (Inl is # rs) = values_of rs"

text \<open>
  \<^verbatim>\<open>z.array(inner).min(m, msg)\<close>: the value is an array, it has at least \<open>m\<close> elements (the
  length is checked first, and reported with \<open>msg\<close>), and every element passes \<open>inner\<close>.
\<close>

fun z_array_min :: "nat \<Rightarrow> string \<Rightarrow> 'a schema \<Rightarrow> 'a list schema" where
  "z_array_min m msg inner p (Some (JArr xs)) =
     (let rs = z_items inner p 0 xs;
          is = (if length xs < m then [Too_small p m msg] else []) @ concat (map issues_of rs)
      in if is = [] then Inr (values_of rs) else Inl is)"
| "z_array_min m msg inner p v = Inl [Invalid_type p ''array'' (getParsedType v)]"

record TranslateTextInput =
  v_text :: "string list"
  v_target_lang :: string
  v_source_lang :: "string option"

text \<open>
  \<^verbatim>\<open>TranslateTextInputSchema.parse\<close>. \<^verbatim>\<open>z.object\<close> wants an object, checks every declared
  member (a missing one is \<^verbatim>\<open>undefined\<close>), gathers the issues of all of them and drops
  the members it does not declare.
\<close>

fun TranslateTextInputSchema_parse :: "json option \<Rightarrow> zod_issue list + TranslateTextInput" where
  "TranslateTextInputSchema_parse (Some (JObj kvs)) =
     (let t = z_array_min 1 ''The 'text' array cannot be empty.'' z_string
                [Key ''text''] (map_of kvs ''text'');
          tl = z_string [Key ''target_lang''] (map_of kvs ''target_lang'');
          sl = z_optional z_string [Key ''source_lang''] (map_of kvs ''source_lang'')
      in case (t, tl, sl) of
           (Inr a, Inr b, Inr c) \<Rightarrow> Inr \<lparr>v_text = a, v_target_lang = b, v_source_lang = c\<rparr>
         | _ \<Rightarrow> Inl (issues_of t @ issues_of tl @ issues_of sl))"
| "TranslateTextInputSchema_parse args = Inl [Invalid_type [] ''object'' (getParsedType args)]"

text \<open>\<^verbatim>\<open>ListLanguagesInputSchema.parse\<close>; the result is the validated \<^verbatim>\<open>type\<close>.\<close>

fun ListLanguagesInputSchema_parse :: "json option \<Rightarrow> zod_issue list + string option" where
  "ListLanguagesInputSchema_parse (Some (JObj kvs)) =
     z_optional (z_enum [''source'', ''target'']) [Key ''type''] (map_of kvs ''type'')"
| "ListLanguagesInputSchema_parse args = Inl [Invalid_type [] ''object'' (getParsedType args)]"

section \<open>Errors and responses\<close>

datatype ErrorCode = InvalidRequest | MethodNotFound | InvalidParams | InternalError

record McpError =
  code :: ErrorCode
  message :: string
  data :: "json option"

record AxiosResponse =
  status :: nat
  response_data :: json

record AxiosError =
  axios_message :: string
  response :: "AxiosResponse option"

text \<open>
  What a \<^verbatim>\<open>catch\<close> can receive: the three error classes the handler tells apart, any
  other \<^verbatim>\<open>Error\<close> (with its message), and a thrown value that is no \<^verbatim>\<open>Error\<close> at all.
\<close>

datatype thrown =
    Mcp McpError
  | Zod "zod_issue list"
  | Axios AxiosError
  | OtherError string
  | NonError "json option"

text \<open>
  Two things belong to the libraries and not to this repository, and are parameters:
  the \<^verbatim>\<open>message\<close> that the SDK's \<^verbatim>\<open>McpError\<close> constructor stores for a code and the
  message it is given, and the object that zod builds for an issue.
\<close>

record libs =
  mcp_message :: "ErrorCode \<Rightarrow> string \<Rightarrow> string"
  issue_json :: "zod_issue \<Rightarrow> json"

definition new_McpError :: "libs \<Rightarrow> ErrorCode \<Rightarrow> string \<Rightarrow> json option \<Rightarrow> McpError" where
  "new_McpError L c m d = \<lparr>code = c, message = mcp_message L c m, data = d\<rparr>"

text \<open>A content block \<^verbatim>\<open>{type, text, mimeType?}\<close> and the response \<^verbatim>\<open>{content, isError?, errorCode?}\<close>.\<close>

record TextContent =
  block_type :: string
  block_text :: "string option"
  block_mimeType :: "string option"

record ToolResponse =
  content :: "TextContent list"
  isError :: "bool option"
  errorCode :: "ErrorCode option"

section \<open>Centralized error handling\<close>

text \<open>The code \<^verbatim>\<open>handleToolError\<close> picks for an axios error, in the order of its three tests.\<close>

definition axios_errorCode :: "nat option \<Rightarrow> ErrorCode" where
  "axios_errorCode st =
     (let errorCode = InternalError;
          errorCode = (if st = Some 400 then InvalidParams else errorCode);
          errorCode = (case st of
                         Some s \<Rightarrow> if s \<noteq> 0 \<and> s \<ge> 401 \<and> s < 500 \<and> s \<noteq> 400
                                   then InvalidRequest else errorCode
                       | None \<Rightarrow> errorCode);
          errorCode = (case st of
                         Some s \<Rightarrow> if s \<noteq> 0 \<and> s \<ge> 500 then InternalError else errorCode
                       | None \<Rightarrow> errorCode)
      in errorCode)"

text \<open>
  \<^verbatim>\<open>data?.message || axiosError.message\<close>, then printed by the template literal, which
  throws when ToString does.
\<close>

definition axios_text :: "json option \<Rightarrow> string \<Rightarrow> string option" where
  "axios_text d fallback =
     (case get_opt d ''message'' of
        Some m \<Rightarrow> if truthy (Some m) then js_to_string m else Some fallback
      | None \<Rightarrow> Some fallback)"

definition status_text :: "nat option \<Rightarrow> string" where
  "status_text st = (case st of None \<Rightarrow> ''undefined'' | Some s \<Rightarrow> show_nat s)"

text \<open>The TypeError that ToString throws.\<close>

definition cannot_convert :: thrown where
  "cannot_convert = OtherError ''Cannot convert object to primitive value''"

text \<open>
  The first half of \<^verbatim>\<open>handleToolError\<close>: the value of its variable \<^verbatim>\<open>mcpError\<close>, or what the
  handler itself throws while it builds the message. In the last branch the handler
  also writes the error to the console, which the model leaves out.
\<close>

fun mcpError_of :: "libs \<Rightarrow> thrown \<Rightarrow> thrown + McpError" where
  "mcpError_of L (Mcp e) = Inr e"
| "mcpError_of L (Zod errors) =
     Inr (new_McpError L InvalidParams ''Input validation failed''
            (Some (JArr (map (issue_json L) errors))))"
| "mcpError_of L (Axios axiosError) =
     (let st = map_option status (response axiosError);
          d = map_option response_data (response axiosError)
      in case axios_text d (axios_message axiosError) of
           None \<Rightarrow> Inl cannot_convert
         | Some msg \<Rightarrow>
             Inr (new_McpError L (axios_errorCode st)
                    (''DeepL API Error ('' @ status_text st @ ''): '' @ msg) d))"
| "mcpError_of L (OtherError m) =
     Inr (new_McpError L InternalError (''An unexpected error occurred: '' @ m) None)"
| "mcpError_of L (NonError v) =
     (case js_String v of
        None \<Rightarrow> Inl cannot_convert
      | Some errorMessage \<Rightarrow>
          Inr (new_McpError L InternalError
                 (''An unexpected error occurred: '' @ errorMessage) None))"

text \<open>
  The second half: the response built from \<^verbatim>\<open>mcpError\<close>. \<^verbatim>\<open>JSON.stringify\<close> does not throw
  on a value read from JSON.
\<close>

definition error_text :: "McpError \<Rightarrow> string" where
  "error_text e =
     ''Error: '' @ message e @
       (if truthy (data e)
        then [CHR 0x0A] @ ''Details: ''
               @ (case JSON_stringify (data e) 0 of Some s \<Rightarrow> s | None \<Rightarrow> ''undefined'')
        else [])"

definition handleToolError :: "libs \<Rightarrow> thrown \<Rightarrow> thrown + ToolResponse" where
  "handleToolError L error =
     (case mcpError_of L error of
        Inl t \<Rightarrow> Inl t
      | Inr mcpError \<Rightarrow>
          (let errorContent = \<lparr>block_type = ''text'', block_text = Some (error_text mcpError),
                                block_mimeType = None\<rparr>
           in Inr \<lparr>content = [errorContent], isError = Some True,
                    errorCode = Some (code mcpError)\<rparr>))"

section \<open>The tools\<close>

text \<open>
  The upstream API is a function from the request the server issues to what axios
  makes of the answer: a response with its parsed body, or a rejection. A handler
  returns what it returns or throws, and the requests it issued, in order.
\<close>

datatype http_request =
    POST string json
  | GET string "(string \<times> string) list"

datatype upstream_outcome = Resolved json | Rejected thrown

type_synonym upstream = "http_request \<Rightarrow> upstream_outcome"

type_synonym outcome = "(thrown + ToolResponse) \<times> http_request list"

definition json_content :: "string option \<Rightarrow> TextContent" where
  "json_content t = \<lparr>block_type = ''text'', block_text = t, block_mimeType = Some ''application/json''\<rparr>"

text \<open>
  \<^verbatim>\<open>callTranslateText\<close>. The spread \<^verbatim>\<open>...(source_lang && {source_lang})\<close> adds the member
  when the validated \<^verbatim>\<open>source_lang\<close> is truthy. Reading \<^verbatim>\<open>response.data.translations\<close>
  throws a TypeError on a \<^verbatim>\<open>null\<close> body and is \<^verbatim>\<open>undefined\<close> when the body has no such
  member.
\<close>

definition translate_body :: "TranslateTextInput \<Rightarrow> json" where
  "translate_body validatedArgs =
     JObj ([(''text'', JArr (map JStr (v_text validatedArgs))),
            (''target_lang'', JStr (v_target_lang validatedArgs))]
           @ (case v_source_lang validatedArgs of
                Some s \<Rightarrow> if s \<noteq> [] then [(''source_lang'', JStr s)] else []
              | None \<Rightarrow> []))"

definition callTranslateText :: "upstream \<Rightarrow> json option \<Rightarrow> outcome" where
  "callTranslateText up args =
     (case TranslateTextInputSchema_parse args of
        Inl errors \<Rightarrow> (Inl (Zod errors), [])
      | Inr validatedArgs \<Rightarrow>
          (let req = POST ''/v2/translate'' (translate_body validatedArgs)
           in case up req of
                Rejected e \<Rightarrow> (Inl e, [req])
              | Resolved d \<Rightarrow>
                  (if d = JNull
                   then (Inl (OtherError
                           ''Cannot read properties of null (reading 'translations')''), [req])
                   else (Inr \<lparr>content = [json_content
                                 (JSON_stringify (get_opt (Some d) ''translations'') 2)],
                              isError = None, errorCode = None\<rparr>, [req]))))"

text \<open>\<^verbatim>\<open>callListLanguages\<close>; \<^verbatim>\<open>params.type\<close> is set when the validated \<^verbatim>\<open>type\<close> is truthy.\<close>

definition languages_params :: "string option \<Rightarrow> (string \<times> string) list" where
  "languages_params t =
     (case t of Some s \<Rightarrow> if s \<noteq> [] then [(''type'', s)] else [] | None \<Rightarrow> [])"

definition callListLanguages :: "upstream \<Rightarrow> json option \<Rightarrow> outcome" where
  "callListLanguages up args =
     (case ListLanguagesInputSchema_parse args of
        Inl errors \<Rightarrow> (Inl (Zod errors), [])
      | Inr validatedType \<Rightarrow>
          (let req = GET ''/v2/languages'' (languages_params validatedType)
           in case up req of
                Rejected e \<Rightarrow> (Inl e, [req])
              | Resolved d \<Rightarrow>
                  (Inr \<lparr>content = [json_content (JSON_stringify (Some d) 2)],
                        isError = None, errorCode = None\<rparr>, [req])))"

text \<open>
  The CallTool handler: the \<^verbatim>\<open>switch\<close> on the tool name inside \<^verbatim>\<open>try\<close>, and the \<^verbatim>\<open>catch\<close>
  that hands whatever was thrown to \<^verbatim>\<open>handleToolError\<close>. It returns the response, or
  what \<^verbatim>\<open>handleToolError\<close> throws from inside the \<^verbatim>\<open>catch\<close>, and the upstream requests
  issued on the way.
\<close>

definition dispatch :: "libs \<Rightarrow> upstream \<Rightarrow> string \<Rightarrow> json option \<Rightarrow> outcome" where
  "dispatch L up name args =
     (if name = ''translate_text'' then callTranslateText up args
      else if name = ''list_languages'' then callListLanguages up args
      else (Inl (Mcp (new_McpError L MethodNotFound
                        (''Tool '' @ [CHR 0x27] @ name @ [CHR 0x27] @ '' not found.'') None)), []))"

definition callTool :: "libs \<Rightarrow> upstream \<Rightarrow> string \<Rightarrow> json option \<Rightarrow> outcome" where
  "callTool L up name args =
     (case dispatch L up name args of
        (Inr r, calls) \<Rightarrow> (Inr r, calls)
      | (Inl error, calls) \<Rightarrow> (handleToolError L error, calls))"

subsection \<open>The failures of an upstream call\<close>

text \<open>
  An axios error that carries an HTTP response (status and body), and one that carries
  none because the request never got an answer.
\<close>

definition http_failure :: "string \<Rightarrow> nat \<Rightarrow> json \<Rightarrow> thrown" where
  "http_failure tm s d =
     Axios \<lparr>axios_message = tm, response = Some \<lparr>status = s, response_data = d\<rparr>\<rparr>"

definition network_failure :: "string \<Rightarrow> thrown" where
  "network_failure tm = Axios \<lparr>axios_message = tm, response = None\<rparr>"

section \<open>The vocabulary of the specification\<close>

text \<open>
  The shapes the specification names, written from its words and not from the schemas:
  a TranslateRequest is a mapping with \<^verbatim>\<open>text\<close>, a non-empty sequence of strings,
  \<^verbatim>\<open>target_lang\<close>, a string, and an optional string \<^verbatim>\<open>source_lang\<close>; the \<^verbatim>\<open>type\<close> of a
  LanguageListRequest is absent, \<^verbatim>\<open>source\<close> or \<^verbatim>\<open>target\<close>.
\<close>

definition is_string :: "json option \<Rightarrow> bool" where
  "is_string v = (case v of Some (JStr s) \<Rightarrow> True | _ \<Rightarrow> False)"

definition is_string_sequence :: "json option \<Rightarrow> bool" where
  "is_string_sequence v =
     (case v of Some (JArr xs) \<Rightarrow> list_all (\<lambda>x. is_string (Some x)) xs | _ \<Rightarrow> False)"

definition is_empty_sequence :: "json option \<Rightarrow> bool" where
  "is_empty_sequence v = (v = Some (JArr []))"

definition is_object :: "json option \<Rightarrow> bool" where
  "is_object v = (case v of Some (JObj kvs) \<Rightarrow> True | _ \<Rightarrow> False)"

definition valid_TranslateRequest :: "json option \<Rightarrow> bool" where
  "valid_TranslateRequest args =
     (is_object args
      \<and> is_string_sequence (get_opt args ''text'') \<and> \<not> is_empty_sequence (get_opt args ''text'')
      \<and> is_string (get_opt args ''target_lang'')
      \<and> (get_opt args ''source_lang'' = None \<or> is_string (get_opt args ''source_lang'')))"

definition type_allowed :: "json option \<Rightarrow> bool" where
  "type_allowed t = (t = None \<or> t = Some (JStr ''source'') \<or> t = Some (JStr ''target''))"

text \<open>The values JavaScript takes as false: \<^verbatim>\<open>null\<close>, \<^verbatim>\<open>false\<close>, \<^verbatim>\<open>0\<close> and the empty string.\<close>

definition falsy :: "json \<Rightarrow> bool" where
  "falsy d = (d = JNull \<or> d = JBool False \<or> d = JNum 0 \<or> d = JStr [])"

text \<open>Details are structured when they are an array or an object.\<close>

definition structured :: "json \<Rightarrow> bool" where
  "structured d = (case d of JArr xs \<Rightarrow> True | JObj kvs \<Rightarrow> True | _ \<Rightarrow> False)"

text \<open>
  A template literal prints every value but an object that has a member \<^verbatim>\<open>toString\<close> of its
  own, which is never a function in a JSON value, and an array that holds such an object.
  The message of an upstream body is printed only when it is taken, that is unless it is
  \<^verbatim>\<open>null\<close>, \<^verbatim>\<open>false\<close>, \<^verbatim>\<open>0\<close> or the empty string.
\<close>

fun printable :: "json \<Rightarrow> bool" where
  "printable (JObj kvs) = (map_of kvs ''toString'' = None)"
| "printable (JArr xs) = list_all printable xs"
| "printable v = True"

definition printable_message :: "json \<Rightarrow> bool" where
  "printable_message d =
     (case get_opt (Some d) ''message'' of
        None \<Rightarrow> True
      | Some m \<Rightarrow> falsy m \<or> printable m)"

text \<open>
  The errors whose text the normalizer can build: the message of the body of an axios error,
  and a thrown value that is no \<^verbatim>\<open>Error\<close>, must be printable.
\<close>

definition printable_error :: "thrown \<Rightarrow> bool" where
  "printable_error e =
     (case e of
        Axios a \<Rightarrow> (case response a of
                      None \<Rightarrow> True
                    | Some r \<Rightarrow> printable_message (response_data r))
      | NonError (Some v) \<Rightarrow> printable v
      | _ \<Rightarrow> True)"

subsection \<open>JSON.parse\<close>

text \<open>
  The specification speaks of parsing the content block back. \<^verbatim>\<open>JSON.parse\<close> is modelled
  by a recursive-descent parser for the values above: white space is blank, tab, line
  feed and carriage return; a string may not hold a raw control character and knows the
  escapes \<^verbatim>\<open>\" \\ \/ \b \f \n \r \t\<close> and \<^verbatim>\<open>\uXXXX\<close>; a number is an optional minus sign and
  decimal digits without a leading zero. A number with a fraction or an exponent and an
  escape beyond code unit 255 are values the model does not have, and give \<open>None\<close> like
  a text that is no JSON.

  The parser of values, of the elements of an array and of the members of an object
  take fuel, one unit for each call. \<open>JSON_parse\<close> gives them the length of the text,
  which is enough for every text (\<open>JSON_parse_fuel\<close> below).
\<close>

definition is_ws :: "char \<Rightarrow> bool" where
  "is_ws c = (c = CHR '' '' \<or> c = CHR 0x09 \<or> c = CHR 0x0A \<or> c = CHR 0x0D)"

definition skip_ws :: "string \<Rightarrow> string" where
  "skip_ws s = dropWhile is_ws s"

fun strip_prefix :: "string \<Rightarrow> string \<Rightarrow> string option" where
  "strip_prefix [] s = Some s"
| "strip_prefix (p # ps) [] = None"
| "strip_prefix (p # ps) (c # cs) = (if p = c then strip_prefix ps cs else None)"

definition digit_val :: "char \<Rightarrow> nat option" where
  "digit_val c = map_of (zip ''0123456789'' [0, 1, 2, 3, 4, 5, 6, 7, 8, 9]) c"

definition hex_val :: "char \<Rightarrow> nat option" where
  "hex_val c =
     (case digit_val c of
        Some d \<Rightarrow> Some d
      | None \<Rightarrow>
          if c = CHR ''a'' \<or> c = CHR ''A'' then Some 10
          else if c = CHR ''b'' \<or> c = CHR ''B'' then Some 11
          else if c = CHR ''c'' \<or> c = CHR ''C'' then Some 12
          else if c = CHR ''d'' \<or> c = CHR ''D'' then Some 13
          else if c = CHR ''e'' \<or> c = CHR ''E'' then Some 14
          else if c = CHR ''f'' \<or> c = CHR ''F'' then Some 15
          else None)"

definition is_digit :: "char \<Rightarrow> bool" where
  "is_digit c = (digit_val c \<noteq> None)"

definition nat_of_digits :: "string \<Rightarrow> nat" where
  "nat_of_digits ds = foldl (\<lambda>a c. 10 * a + (case digit_val c of Some d \<Rightarrow> d | None \<Rightarrow> 0)) 0 ds"

definition parse_nat :: "string \<Rightarrow> (nat \<times> string) option" where
  "parse_nat s =
     (let ds = takeWhile is_digit s; r = dropWhile is_digit s
      in if ds = [] then None
         else if 1 < length ds \<and> hd ds = CHR ''0'' then None
         else if (case r of [] \<Rightarrow> False | c # cs \<Rightarrow> c = CHR ''.'' \<or> c = CHR ''e'' \<or> c = CHR ''E'')
              then None
         else Some (nat_of_digits ds, r))"

definition parse_number :: "string \<Rightarrow> (json \<times> string) option" where
  "parse_number s =
     (case s of
        [] \<Rightarrow> None
      | c # cs \<Rightarrow>
          if c = CHR ''-''
          then (case parse_nat cs of None \<Rightarrow> None | Some (n, r) \<Rightarrow> Some (JNum (- int n), r))
          else (case parse_nat s of None \<Rightarrow> None | Some (n, r) \<Rightarrow> Some (JNum (int n), r)))"

definition unescape :: "char \<Rightarrow> char option" where
  "unescape e =
     (if e = CHR 0x22 then Some (CHR 0x22)
      else if e = CHR 0x5C then Some (CHR 0x5C)
      else if e = CHR ''/'' then Some (CHR ''/'')
      else if e = CHR ''b'' then Some (CHR 0x08)
      else if e = CHR ''f'' then Some (CHR 0x0C)
      else if e = CHR ''n'' then Some (CHR 0x0A)
      else if e = CHR ''r'' then Some (CHR 0x0D)
      else if e = CHR ''t'' then Some (CHR 0x09)
      else None)"

definition hex4 :: "char \<Rightarrow> char \<Rightarrow> char \<Rightarrow> char \<Rightarrow> nat option" where
  "hex4 a b c d =
     (case (hex_val a, hex_val b, hex_val c, hex_val d) of
        (Some w, Some x, Some y, Some z) \<Rightarrow> Some (((w * 16 + x) * 16 + y) * 16 + z)
      | _ \<Rightarrow> None)"

definition cons_char :: "char \<Rightarrow> (string \<times> string) option \<Rightarrow> (string \<times> string) option" where
  "cons_char c r = (case r of None \<Rightarrow> None | Some (s, rest) \<Rightarrow> Some (c # s, rest))"

fun parse_chars :: "string \<Rightarrow> (string \<times> string) option" where
  "parse_chars [] = None"
| "parse_chars (c # cs) =
     (if c = CHR 0x22 then Some ([], cs)
      else if c = CHR 0x5C then
        (case cs of
           [] \<Rightarrow> None
         | e # r \<Rightarrow>
             if e = CHR ''u'' then
               (case r of
                  h1 # h2 # h3 # h4 # r' \<Rightarrow>
                    (case hex4 h1 h2 h3 h4 of
                       None \<Rightarrow> None
                     | Some n \<Rightarrow> if n < 256 then cons_char (char_of n) (parse_chars r') else None)
                | _ \<Rightarrow> None)
             else (case unescape e of
                     None \<Rightarrow> None
                   | Some d \<Rightarrow> cons_char d (parse_chars r)))
      else if of_char c < (32 :: nat) then None
      else cons_char c (parse_chars cs))"

fun parse_value :: "nat \<Rightarrow> string \<Rightarrow> (json \<times> string) option"
  and parse_elements :: "nat \<Rightarrow> string \<Rightarrow> (json list \<times> string) option"
  and parse_members :: "nat \<Rightarrow> string \<Rightarrow> ((string \<times> json) list \<times> string) option"
where
  "parse_value 0 s = None"
| "parse_value (Suc n) s =
     (case skip_ws s of
        [] \<Rightarrow> None
      | c # cs \<Rightarrow>
          if c = CHR ''['' then
            (case skip_ws cs of
               [] \<Rightarrow> None
             | d # r \<Rightarrow>
                 if d = CHR '']'' then Some (JArr [], r)
                 else (case parse_elements n cs of
                         None \<Rightarrow> None | Some (vs, r') \<Rightarrow> Some (JArr vs, r')))
          else if c = CHR ''{'' then
            (case skip_ws cs of
               [] \<Rightarrow> None
             | d # r \<Rightarrow>
                 if d = CHR ''}'' then Some (JObj [], r)
                 else (case parse_members n cs of
                         None \<Rightarrow> None | Some (kvs, r') \<Rightarrow> Some (JObj kvs, r')))
          else if c = CHR 0x22 then
            (case parse_chars cs of None \<Rightarrow> None | Some (str, r) \<Rightarrow> Some (JStr str, r))
          else if c = CHR ''n'' then
            (case strip_prefix ''ull'' cs of None \<Rightarrow> None | Some r \<Rightarrow> Some (JNull, r))
          else if c = CHR ''t'' then
            (case strip_prefix ''rue'' cs of None \<Rightarrow> None | Some r \<Rightarrow> Some (JBool True, r))
          else if c = CHR ''f'' then
            (case strip_prefix ''alse'' cs of None \<Rightarrow> None | Some r \<Rightarrow> Some (JBool False, r))
          else parse_number (c # cs))"
| "parse_elements 0 s = None"
| "parse_elements (Suc n) s =
     (case parse_value n s of
        None \<Rightarrow> None
      | Some (v, r) \<Rightarrow>
          (case skip_ws r of
             [] \<Rightarrow> None
           | c # r' \<Rightarrow>
               if c = CHR '','' then
                 (case parse_elements n r' of
                    None \<Rightarrow> None | Some (vs, r'') \<Rightarrow> Some (v # vs, r''))
               else if c = CHR '']'' then Some ([v], r')
               else None))"
| "parse_members 0 s = None"
| "parse_members (Suc n) s =
     (case skip_ws s of
        [] \<Rightarrow> None
      | q # cs \<Rightarrow>
          if q \<noteq> CHR 0x22 then None
          else (case parse_chars cs of
                  None \<Rightarrow> None
                | Some (k, r) \<Rightarrow>
                    (case skip_ws r of
                       [] \<Rightarrow> None
                     | c # r' \<Rightarrow>
                         if c \<noteq> CHR '':'' then None
                         else (case parse_value n r' of
                                 None \<Rightarrow> None
                               | Some (v, r'') \<Rightarrow>
                                   (case skip_ws r'' of
                                      [] \<Rightarrow> None
                                    | d # t \<Rightarrow>
                                        if d = CHR '','' then
                                          (case parse_members n t of
                                             None \<Rightarrow> None
                                           | Some (kvs, t') \<Rightarrow> Some ((k, v) # kvs, t'))
                                        else if d = CHR ''}'' then Some ([(k, v)], t)
                                        else None)))))"

definition JSON_parse :: "string \<Rightarrow> json option" where
  "JSON_parse s =
     (case parse_value (length s) s of
        None \<Rightarrow> None
      | Some (v, r) \<Rightarrow> if skip_ws r = [] then Some v else None)"

text \<open>
  For the round trip: a blank string is white space only; a value is delimited when
  what follows it is the end of the text, white space, a comma or a closing bracket;
  \<open>wt\<close> bounds the fuel the parser needs for the text of a value.
\<close>

definition blank :: "string \<Rightarrow> bool" where
  "blank w = list_all is_ws w"

definition delimited :: "string \<Rightarrow> bool" where
  "delimited rest =
     (case rest of
        [] \<Rightarrow> True
      | c # cs \<Rightarrow> is_ws c \<or> c = CHR '','' \<or> c = CHR '']'' \<or> c = CHR ''}'')"

fun wt :: "json \<Rightarrow> nat" where
  "wt (JArr xs) = Suc (sum_list (map (\<lambda>x. Suc (wt x)) xs))"
| "wt (JObj kvs) = Suc (sum_list (map (\<lambda>(k, v). Suc (wt v)) kvs))"
| "wt v = 1"

definition sequence_length :: "json option \<Rightarrow> nat option" where
  "sequence_length v = (case v of Some (JArr xs) \<Rightarrow> Some (length xs) | _ \<Rightarrow> None)"

section \<open>Concrete inputs\<close>

text \<open>
  One instance of the library parameters: the message format \<^verbatim>\<open>MCP error <code>: <message>\<close>
  with the JSON-RPC numbers of the codes, and an issue object with the issue's code and
  path.
\<close>

definition ErrorCode_number :: "ErrorCode \<Rightarrow> int" where
  "ErrorCode_number c =
     (case c of InvalidRequest \<Rightarrow> - 32600 | MethodNotFound \<Rightarrow> - 32601
              | InvalidParams \<Rightarrow> - 32602 | InternalError \<Rightarrow> - 32603)"

fun path_elem_json :: "path_elem \<Rightarrow> json" where
  "path_elem_json (Key k) = JStr k"
| "path_elem_json (Index i) = JNum (int i)"

fun example_issue_json :: "zod_issue \<Rightarrow> json" where
  "example_issue_json (Invalid_type p e r) =
     JObj [(''code'', JStr ''invalid_type''), (''expected'', JStr e), (''received'', JStr r),
           (''path'', JArr (map path_elem_json p))]"
| "example_issue_json (Too_small p m msg) =
     JObj [(''code'', JStr ''too_small''), (''minimum'', JNum (int m)), (''message'', JStr msg),
           (''path'', JArr (map path_elem_json p))]"
| "example_issue_json (Invalid_enum_value p opts r) =
     JObj [(''received'', JStr r), (''code'', JStr ''invalid_enum_value''),
           (''options'', JArr (map JStr opts)), (''path'', JArr (map path_elem_json p))]"

definition example_libs :: libs where
  "example_libs =
     \<lparr>mcp_message = (\<lambda>c m. ''MCP error '' @ show_int (ErrorCode_number c) @ '': '' @ m),
      issue_json = example_issue_json\<rparr>"

definition example_translations :: "json list" where
  "example_translations =
     [JObj [(''detected_source_language'', JStr ''EN''), (''text'', JStr ''Hallo Welt'')]]"

definition example_upstream :: upstream where
  "example_upstream req =
     (case req of
        POST url body \<Rightarrow> Resolved (JObj [(''translations'', JArr example_translations)])
      | GET url params \<Rightarrow>
          Resolved (JArr [JObj [(''language'', JStr ''DE''), (''name'', JStr ''German''),
                                (''supports_formality'', JBool True)]]))"

definition null_body_upstream :: upstream where
  "null_body_upstream req = Resolved JNull"

definition forbidden_upstream :: upstream where
  "forbidden_upstream req =
     Rejected (http_failure ''Request failed with status code 403'' 403
                 (JObj [(''message'', JStr ''Forbidden'')]))"

definition toString_upstream :: upstream where
  "toString_upstream req =
     Rejected (http_failure ''Request failed with status code 400'' 400
                 (JObj [(''message'', JObj [(''toString'', JNum 1)])]))"

definition example_args :: json where
  "example_args = JObj [(''text'', JArr [JStr ''Hello world'']), (''target_lang'', JStr ''DE'')]"

definition empty_source_args :: json where
  "empty_source_args =
     JObj [(''text'', JArr [JStr ''Hello world'']), (''target_lang'', JStr ''DE''),
           (''source_lang'', JStr [])]"

definition empty_text_args :: json where
  "empty_text_args = JObj [(''text'', JArr []), (''target_lang'', JStr ''DE'')]"

definition no_translations_upstream :: upstream where
  "no_translations_upstream req = Resolved (JObj [(''translations'', JArr [])])"

section \<open>What the schemas accept\<close>

lemma z_items_string_issues:
  "concat (map issues_of (z_items z_string p i xs)) = []
     \<longleftrightarrow> list_all (\<lambda>x. is_string (Some x)) xs"
proof (induction xs arbitrary: i)
  case Nil
  show ?case by simp
next
  case (Cons x xs)
  show ?case using Cons.IH [of "Suc i"] by (cases x) (simp_all add: is_string_def)
qed

lemma z_items_string_values:
  "list_all (\<lambda>x. is_string (Some x)) xs
     \<Longrightarrow> map JStr (values_of (z_items z_string p i xs)) = xs"
proof (induction xs arbitrary: i)
  case Nil
  show ?case by simp
next
  case (Cons x xs)
  then show ?case by (cases x) (simp_all add: is_string_def)
qed

lemma z_array_min_string_Inr:
  "z_array_min 1 msg z_string p v = Inr ts \<longleftrightarrow>
     is_string_sequence v \<and> \<not> is_empty_sequence v \<and> v = Some (JArr (map JStr ts))"
proof (cases v)
  case None
  then show ?thesis by (simp add: is_string_sequence_def)
next
  case (Some j)
  show ?thesis
  proof (cases j)
    case (JArr xs)
    show ?thesis
      using z_items_string_issues [of p 0 xs] z_items_string_values [of xs p 0]
        inj_map_eq_map [of JStr "values_of (z_items z_string p 0 xs)" ts]
      by (auto simp add: Some JArr Let_def is_string_sequence_def is_empty_sequence_def inj_def
               simp del: concat_eq_Nil_conv)
  qed (simp_all add: Some is_string_sequence_def)
qed

lemma z_string_Inr: "z_string p v = Inr s \<longleftrightarrow> v = Some (JStr s)"
  by (cases "(p, v)" rule: z_string.cases) auto

lemma z_optional_string_Inr:
  "z_optional z_string p v = Inr s \<longleftrightarrow>
     (v = None \<and> s = None) \<or> (\<exists>t. v = Some (JStr t) \<and> s = Some t)"
proof (cases v)
  case None
  then show ?thesis by auto
next
  case (Some j)
  then show ?thesis by (cases j) (auto split: sum.splits)
qed

lemma TranslateTextInputSchema_parse_Inr:
  "TranslateTextInputSchema_parse args = Inr v \<longleftrightarrow>
     is_object args
     \<and> get_opt args ''text'' = Some (JArr (map JStr (v_text v))) \<and> v_text v \<noteq> []
     \<and> get_opt args ''target_lang'' = Some (JStr (v_target_lang v))
     \<and> get_opt args ''source_lang'' = map_option JStr (v_source_lang v)"
proof (cases args)
  case None
  then show ?thesis by (simp add: is_object_def)
next
  case (Some j)
  show ?thesis
  proof (cases j)
    case (JObj kvs)
    let ?t = "z_array_min 1 ''The 'text' array cannot be empty.'' z_string
                [Key ''text''] (map_of kvs ''text'')"
    let ?tl = "z_string [Key ''target_lang''] (map_of kvs ''target_lang'')"
    let ?sl = "z_optional z_string [Key ''source_lang''] (map_of kvs ''source_lang'')"
    have "TranslateTextInputSchema_parse args = Inr v \<longleftrightarrow>
            ?t = Inr (v_text v) \<and> ?tl = Inr (v_target_lang v) \<and> ?sl = Inr (v_source_lang v)"
      by (auto simp add: Some JObj Let_def split: sum.splits)
    also have "\<dots> \<longleftrightarrow>
        map_of kvs ''text'' = Some (JArr (map JStr (v_text v))) \<and> v_text v \<noteq> []
        \<and> map_of kvs ''target_lang'' = Some (JStr (v_target_lang v))
        \<and> map_of kvs ''source_lang'' = map_option JStr (v_source_lang v)"
      unfolding z_array_min_string_Inr z_string_Inr z_optional_string_Inr
      by (cases "v_source_lang v")
         (auto simp add: is_string_sequence_def is_empty_sequence_def is_string_def list_all_iff)
    finally show ?thesis by (simp add: Some JObj is_object_def)
  qed (simp_all add: Some is_object_def)
qed

lemma string_sequence_map_JStr:
  "list_all (\<lambda>x. is_string (Some x)) xs \<Longrightarrow> \<exists>ts. xs = map JStr ts"
proof (induction xs)
  case Nil
  show ?case by simp
next
  case (Cons x xs)
  then obtain ts where "xs = map JStr ts" by auto
  moreover from Cons.prems obtain t where "x = JStr t"
    by (cases x) (simp_all add: is_string_def)
  ultimately have "x # xs = map JStr (t # ts)" by simp
  then show ?case by (rule exI)
qed

text \<open>The schema of \<^verbatim>\<open>translate_text\<close> accepts exactly the TranslateRequests.\<close>

lemma TranslateTextInputSchema_parse_valid:
  "(\<exists>v. TranslateTextInputSchema_parse args = Inr v) \<longleftrightarrow> valid_TranslateRequest args"
proof
  assume "\<exists>v. TranslateTextInputSchema_parse args = Inr v"
  then obtain v where "TranslateTextInputSchema_parse args = Inr v" ..
  then show "valid_TranslateRequest args"
    unfolding TranslateTextInputSchema_parse_Inr valid_TranslateRequest_def
    by (cases "v_source_lang v")
       (auto simp add: is_string_sequence_def is_empty_sequence_def is_string_def list_all_iff)
next
  assume a: "valid_TranslateRequest args"
  then obtain xs where xs: "get_opt args ''text'' = Some (JArr xs)" "xs \<noteq> []"
      "list_all (\<lambda>x. is_string (Some x)) xs"
    by (auto simp add: valid_TranslateRequest_def is_string_sequence_def is_empty_sequence_def
             split: option.splits json.splits)
  from xs(3) obtain ts where ts: "xs = map JStr ts"
    using string_sequence_map_JStr by blast
  from a obtain tl where tl: "get_opt args ''target_lang'' = Some (JStr tl)"
    by (auto simp add: valid_TranslateRequest_def is_string_def split: option.splits json.splits)
  from a have "get_opt args ''source_lang'' = None
                 \<or> (\<exists>s. get_opt args ''source_lang'' = Some (JStr s))"
    by (auto simp add: valid_TranslateRequest_def is_string_def split: option.splits json.splits)
  then have "\<exists>sl. get_opt args ''source_lang'' = map_option JStr sl"
  proof
    assume "get_opt args ''source_lang'' = None"
    then have "get_opt args ''source_lang'' = map_option JStr None" by simp
    then show ?thesis by (rule exI)
  next
    assume "\<exists>s. get_opt args ''source_lang'' = Some (JStr s)"
    then obtain s where "get_opt args ''source_lang'' = Some (JStr s)" ..
    then have "get_opt args ''source_lang'' = map_option JStr (Some s)" by simp
    then show ?thesis by (rule exI)
  qed
  then obtain sl where sl: "get_opt args ''source_lang'' = map_option JStr sl" ..
  have "TranslateTextInputSchema_parse args
          = Inr \<lparr>v_text = ts, v_target_lang = tl, v_source_lang = sl\<rparr>"
    unfolding TranslateTextInputSchema_parse_Inr
    using a xs ts tl sl by (simp add: valid_TranslateRequest_def)
  then show "\<exists>v. TranslateTextInputSchema_parse args = Inr v" ..
qed

lemma ListLanguagesInputSchema_parse_Inr:
  "ListLanguagesInputSchema_parse args = Inr t \<longleftrightarrow>
     is_object args \<and> type_allowed (get_opt args ''type'')
     \<and> get_opt args ''type'' = map_option JStr t"
proof (cases args)
  case None
  then show ?thesis by (simp add: is_object_def)
next
  case (Some j)
  show ?thesis
  proof (cases j)
    case (JObj kvs)
    show ?thesis
    proof (cases "map_of kvs ''type''")
      case None
      then show ?thesis by (auto simp add: Some JObj is_object_def type_allowed_def)
    next
      case (Some v)
      then show ?thesis
        by (cases v; cases t)
           (auto simp add: \<open>args = Some j\<close> JObj is_object_def type_allowed_def)
    qed
  qed (simp_all add: Some is_object_def)
qed

text \<open>
  A call without any \<^verbatim>\<open>arguments\<close> hands \<^verbatim>\<open>undefined\<close> to the schema, and \<^verbatim>\<open>z.object\<close>
  rejects it: \<^verbatim>\<open>list_languages\<close> wants at least the empty mapping.
\<close>

lemma ListLanguagesInputSchema_parse_undefined:
  "ListLanguagesInputSchema_parse None = Inl [Invalid_type [] ''object'' ''undefined'']"
  by simp

section \<open>The response to an error\<close>

lemma handleToolError_Inr:
  "mcpError_of L e = Inr E \<Longrightarrow>
     handleToolError L e
       = Inr \<lparr>content = [\<lparr>block_type = ''text'', block_text = Some (error_text E),
                          block_mimeType = None\<rparr>],
              isError = Some True, errorCode = Some (code E)\<rparr>"
  by (simp add: handleToolError_def)

lemma handleToolError_Inl: "mcpError_of L e = Inl t \<Longrightarrow> handleToolError L e = Inl t"
  by (simp add: handleToolError_def)

lemma truthy_falsy: "truthy (Some d) \<longleftrightarrow> \<not> falsy d"
  by (cases d) (auto simp add: falsy_def)

lemma error_text_details:
  "error_text E
     = ''Error: '' @ message E
         @ (case data E of
              None \<Rightarrow> []
            | Some d \<Rightarrow> if falsy d then []
                        else [CHR 0x0A] @ ''Details: '' @ serialize [] [] d)"
  by (cases "data E") (simp_all add: error_text_def JSON_stringify_def truthy_falsy)

lemma axios_errorCode_400: "axios_errorCode (Some 400) = InvalidParams"
  by (simp add: axios_errorCode_def)

lemma axios_errorCode_4xx:
  "401 \<le> s \<Longrightarrow> s \<le> 499 \<Longrightarrow> axios_errorCode (Some s) = InvalidRequest"
  by (simp add: axios_errorCode_def)

lemma axios_errorCode_5xx: "500 \<le> s \<Longrightarrow> axios_errorCode (Some s) = InternalError"
  by (simp add: axios_errorCode_def)

lemma http_failure_mcpError:
  "axios_text (Some d) tm = Some msg \<Longrightarrow>
     mcpError_of L (http_failure tm s d)
       = Inr \<lparr>code = axios_errorCode (Some s),
              message = mcp_message L (axios_errorCode (Some s))
                          (''DeepL API Error ('' @ show_nat s @ ''): '' @ msg),
              data = Some d\<rparr>"
  by (simp add: http_failure_def new_McpError_def Let_def status_text_def)

text \<open>
  What \<^verbatim>\<open>handleToolError\<close> can print it turns into a response: a failure of dispatch is
  recovered whenever building the error does not throw itself.
\<close>

lemma callTool_recovers:
  "dispatch L up name args = (Inl e, calls) \<Longrightarrow> mcpError_of L e = Inr E \<Longrightarrow>
     callTool L up name args
       = (Inr \<lparr>content = [\<lparr>block_type = ''text'', block_text = Some (error_text E),
                           block_mimeType = None\<rparr>],
               isError = Some True, errorCode = Some (code E)\<rparr>, calls)"
  by (simp add: callTool_def handleToolError_Inr)

subsection \<open>The errors that can be printed\<close>

lemma those_Some_iff:
  "(\<exists>zs. those ys = Some zs) \<longleftrightarrow> list_all (\<lambda>y. y \<noteq> None) ys"
  by (induction ys) (auto split: option.splits)

lemma js_to_string_printable:
  "(\<exists>s. js_to_string v = Some s) \<longleftrightarrow> printable v"
proof (induction v rule: printable.induct)
  case (2 xs)
  have "(\<exists>s. js_to_string (JArr xs) = Some s)
          \<longleftrightarrow> (\<exists>zs. those (map (\<lambda>x. if x = JNull then Some [] else js_to_string x) xs) = Some zs)"
    by auto
  also have "\<dots> \<longleftrightarrow> list_all (\<lambda>x. (if x = JNull then Some [] else js_to_string x) \<noteq> None) xs"
    unfolding those_Some_iff by (induction xs) simp_all
  also have "\<dots> \<longleftrightarrow> list_all printable xs"
    using 2 by (auto simp add: list_all_iff)
  finally show ?case by simp
qed simp_all

lemma axios_text_printable:
  "(\<exists>msg. axios_text (Some d) tm = Some msg) \<longleftrightarrow> printable_message d"
  using js_to_string_printable
  by (auto simp add: axios_text_def printable_message_def truthy_falsy split: option.splits)


lemma mcpError_of_printable:
  "(\<exists>E. mcpError_of L e = Inr E) \<longleftrightarrow> printable_error e"
proof (cases e)
  case (Axios a)
  show ?thesis
  proof (cases "response a")
    case None
    then show ?thesis
      by (simp add: Axios printable_error_def axios_text_def Let_def)
  next
    case (Some r)
    show ?thesis
      using axios_text_printable [of "response_data r" "axios_message a"]
      by (auto simp add: Axios Some printable_error_def Let_def split: option.splits)
  qed
next
  case (NonError v)
  show ?thesis
  proof (cases v)
    case None
    then show ?thesis
      by (simp add: NonError printable_error_def js_String_def)
  next
    case (Some j)
    have "(\<exists>E. mcpError_of L e = Inr E) \<longleftrightarrow> (\<exists>s. js_to_string j = Some s)"
      by (cases "js_to_string j") (simp_all add: NonError Some js_String_def)
    then show ?thesis
      by (simp add: js_to_string_printable NonError Some printable_error_def)
  qed
qed (simp_all add: printable_error_def)

section \<open>The requests a call issues\<close>

lemma callTool_calls: "snd (callTool L up name args) = snd (dispatch L up name args)"
  by (simp add: callTool_def split: prod.splits sum.splits)

lemma callTranslateText_calls:
  "TranslateTextInputSchema_parse args = Inr v \<Longrightarrow>
     snd (callTranslateText up args) = [POST ''/v2/translate'' (translate_body v)]"
  by (simp add: callTranslateText_def Let_def split: upstream_outcome.splits)

section \<open>Parsing what \<^verbatim>\<open>JSON.stringify\<close> prints\<close>

lemma skip_ws_blank: "blank w \<Longrightarrow> skip_ws (w @ s) = skip_ws s"
  by (induction w) (simp_all add: blank_def skip_ws_def)

lemma skip_ws_start: "\<not> is_ws c \<Longrightarrow> skip_ws (c # s) = c # s"
  by (simp add: skip_ws_def)

lemma strip_prefix_append: "strip_prefix p (p @ r) = Some r"
  by (induction p) simp_all

lemma digit_val_digit_char: "d < 10 \<Longrightarrow> digit_val (digit_char d) = Some d"
  by (simp add: digit_val_def digit_char_def)

lemma is_digit_digit_char: "is_digit (digit_char d)"
  by (simp add: is_digit_def digit_val_def digit_char_def)

lemma digit_char_not_zero: "0 < d \<Longrightarrow> d < 10 \<Longrightarrow> digit_char d \<noteq> CHR ''0''"
  by (simp add: digit_char_def)

lemma show_nat_digits: "list_all is_digit (show_nat n)"
proof (induction n rule: show_nat.induct)
  case (1 n)
  show ?case
  proof (cases "n < 10")
    case True
    then show ?thesis by (subst show_nat.simps) (simp add: is_digit_digit_char)
  next
    case False
    with 1 show ?thesis by (subst show_nat.simps) (simp add: is_digit_digit_char)
  qed
qed

lemma show_nat_not_Nil: "show_nat n \<noteq> []"
  by (subst show_nat.simps) simp

lemma show_nat_value: "nat_of_digits (show_nat n) = n"
proof (induction n rule: show_nat.induct)
  case (1 n)
  show ?case
  proof (cases "n < 10")
    case True
    then show ?thesis
      by (subst show_nat.simps) (simp add: nat_of_digits_def digit_val_digit_char)
  next
    case False
    with 1 have "nat_of_digits (show_nat (n div 10)) = n div 10" by simp
    with False show ?thesis
      by (subst show_nat.simps)
         (simp add: nat_of_digits_def digit_val_digit_char)
  qed
qed

lemma show_nat_hd: "0 < n \<Longrightarrow> hd (show_nat n) \<noteq> CHR ''0''"
proof (induction n rule: show_nat.induct)
  case (1 n)
  show ?case
  proof (cases "n < 10")
    case True
    with 1 show ?thesis by (subst show_nat.simps) (simp add: digit_char_not_zero)
  next
    case False
    then have "0 < n div 10" by simp
    with 1 False have "hd (show_nat (n div 10)) \<noteq> CHR ''0''" by simp
    with False show ?thesis
      by (subst show_nat.simps) (simp add: show_nat_not_Nil)
  qed
qed

lemma show_nat_length: "1 < length (show_nat n) \<Longrightarrow> 0 < n"
  by (cases "n = 0") (simp_all add: show_nat.simps)

lemma delimited_not_digit: "delimited rest \<Longrightarrow> rest = [] \<or> \<not> is_digit (hd rest)"
  by (cases rest) (auto simp add: delimited_def is_digit_def digit_val_def is_ws_def)

lemma parse_nat_show_nat:
  assumes "delimited rest"
  shows "parse_nat (show_nat n @ rest) = Some (n, rest)"
proof -
  have r: "rest = [] \<or> \<not> is_digit (hd rest)"
    using assms by (rule delimited_not_digit)
  have d: "\<forall>c\<in>set (show_nat n). is_digit c"
    using show_nat_digits [of n] by (simp add: list_all_iff)
  have t: "takeWhile is_digit (show_nat n @ rest) = show_nat n"
    using r d by (cases rest) (simp_all add: takeWhile_append2 takeWhile_eq_all_conv)
  have dr: "dropWhile is_digit (show_nat n @ rest) = rest"
    using r d by (cases rest) (simp_all add: dropWhile_append2)
  have z: "\<not> (1 < length (show_nat n) \<and> hd (show_nat n) = CHR ''0'')"
    using show_nat_length [of n] show_nat_hd [of n] by blast
  have e: "\<not> (case rest of [] \<Rightarrow> False
               | c # cs \<Rightarrow> c = CHR ''.'' \<or> c = CHR ''e'' \<or> c = CHR ''E'')"
    using assms by (cases rest) (auto simp add: delimited_def is_ws_def)
  show ?thesis
    using z e by (simp add: parse_nat_def t dr Let_def show_nat_not_Nil show_nat_value)
qed

lemma show_nat_start: "\<exists>c cs. show_nat n = c # cs \<and> is_digit c"
  using show_nat_digits [of n] show_nat_not_Nil [of n]
  by (cases "show_nat n") simp_all

lemma is_digit_not_minus: "is_digit c \<Longrightarrow> c \<noteq> CHR ''-''"
  by (auto simp add: is_digit_def digit_val_def)

lemma parse_number_show_int:
  assumes "delimited rest"
  shows "parse_number (show_int i @ rest) = Some (JNum i, rest)"
proof (cases "i < 0")
  case True
  then show ?thesis
    by (simp add: parse_number_def show_int_def parse_nat_show_nat [OF assms])
next
  case False
  obtain c cs where c: "show_nat (nat i) = c # cs" "is_digit c"
    using show_nat_start by blast
  have "parse_nat (c # cs @ rest) = Some (nat i, rest)"
    using parse_nat_show_nat [OF assms, of "nat i"] c by simp
  with False c show ?thesis
    by (simp add: parse_number_def show_int_def is_digit_not_minus)
qed

lemma hex_val_hex_digit: "d < 16 \<Longrightarrow> hex_val (hex_digit d) = Some d"
proof -
  assume "d < 16"
  then consider "d = 0" | "d = 1" | "d = 2" | "d = 3" | "d = 4" | "d = 5" | "d = 6" | "d = 7"
    | "d = 8" | "d = 9" | "d = 10" | "d = 11" | "d = 12" | "d = 13" | "d = 14" | "d = 15"
    by (auto simp add: numeral_eq_Suc less_Suc_eq)
  then show ?thesis
    by cases (simp_all add: hex_val_def hex_digit_def digit_val_def digit_char_def)
qed

lemma hex4_quote:
  assumes "n < 32"
  shows "hex4 (CHR ''0'') (CHR ''0'') (hex_digit (n div 16)) (hex_digit (n mod 16)) = Some n"
proof -
  have a: "hex_val (hex_digit (n div 16)) = Some (n div 16)"
    using assms by (intro hex_val_hex_digit) simp
  have b: "hex_val (hex_digit (n mod 16)) = Some (n mod 16)"
    by (intro hex_val_hex_digit) simp
  have z: "hex_val (CHR ''0'') = Some 0"
    by (simp add: hex_val_def digit_val_def)
  show ?thesis by (simp add: hex4_def a b z)
qed

lemma parse_chars_quote_char:
  assumes "parse_chars t = Some (s, rest)"
  shows "parse_chars (quote_char c @ t) = Some (c # s, rest)"
proof (cases "of_char c < (32 :: nat)")
  case False
  then show ?thesis
    using assms by (auto simp add: quote_char_def cons_char_def unescape_def)
next
  case True
  have "char_of (of_char c :: nat) = c" by simp
  with True show ?thesis
    using assms hex4_quote [of "of_char c"]
    by (simp add: quote_char_def cons_char_def unescape_def)
qed

lemma parse_chars_quote:
  "parse_chars (concat (map quote_char s) @ CHR 0x22 # rest) = Some (s, rest)"
proof (induction s)
  case Nil
  show ?case by simp
next
  case (Cons c s)
  then show ?case
    using parse_chars_quote_char [of "concat (map quote_char s) @ CHR 0x22 # rest" s rest c]
    by simp
qed

lemma parse_value_blank: "blank w \<Longrightarrow> parse_value n (w @ s) = parse_value n s"
  by (cases n) (simp_all add: skip_ws_blank)

lemma parse_elements_blank: "blank w \<Longrightarrow> parse_elements n (w @ s) = parse_elements n s"
  by (cases n) (simp_all add: parse_value_blank)

lemma parse_members_blank: "blank w \<Longrightarrow> parse_members n (w @ s) = parse_members n s"
  by (cases n) (simp_all add: skip_ws_blank)

lemma is_digit_start: "is_digit c \<Longrightarrow> \<not> is_ws c \<and> c \<noteq> CHR '']''"
  by (auto simp add: is_digit_def digit_val_def is_ws_def split: if_splits)

text \<open>A serialized value begins with a character that is neither white space nor a
  closing bracket.\<close>

lemma serialize_start:
  "\<exists>c cs. serialize gap indent v = c # cs \<and> \<not> is_ws c \<and> c \<noteq> CHR '']''"
proof (cases v)
  case (JNum i)
  obtain c cs where c: "show_nat (nat (- i)) = c # cs" "is_digit c"
    using show_nat_start by blast
  obtain d ds where d: "show_nat (nat i) = d # ds" "is_digit d"
    using show_nat_start by blast
  show ?thesis
    using c d is_digit_start [of d]
    by (simp add: JNum show_int_def is_ws_def)
qed (simp_all add: is_ws_def quote_def)

lemma delimited_blank: "blank w \<Longrightarrow> delimited (w @ CHR '']'' # rest)"
  by (cases w) (simp_all add: delimited_def blank_def)

lemma delimited_blank_brace: "blank w \<Longrightarrow> delimited (w @ CHR ''}'' # rest)"
  by (cases w) (simp_all add: delimited_def blank_def)

lemma skip_ws_blank_char: "blank w \<Longrightarrow> \<not> is_ws c \<Longrightarrow> skip_ws (w @ c # rest) = c # rest"
  by (simp add: skip_ws_blank skip_ws_start)

lemma elements_roundtrip:
  assumes "blank w1" and "blank w2"
    and "\<And>x n rest. x \<in> set xs \<Longrightarrow> wt x \<le> n \<Longrightarrow> delimited rest
            \<Longrightarrow> parse_value n (f x @ rest) = Some (x, rest)"
  shows "xs \<noteq> [] \<Longrightarrow> sum_list (map (\<lambda>x. Suc (wt x)) xs) \<le> n \<Longrightarrow>
         parse_elements n (join (CHR '','' # w1) (map f xs) @ w2 @ CHR '']'' # rest)
           = Some (xs, rest)"
  using assms(3)
proof (induction xs arbitrary: n rule: induct_list012)
  case 1
  then show ?case by simp
next
  case (2 x)
  from 2(2) obtain m where m: "n = Suc m" "wt x \<le> m"
    by (cases n) simp_all
  have "parse_value m (f x @ w2 @ CHR '']'' # rest) = Some (x, w2 @ CHR '']'' # rest)"
    using 2(3) [of x m] m assms(2) by (simp add: delimited_blank)
  then show ?case
    using assms(2) by (simp add: m skip_ws_blank_char is_ws_def)
next
  case (3 x y zs)
  from 3(4) obtain m where m: "n = Suc m" "wt x \<le> m"
      "sum_list (map (\<lambda>x. Suc (wt x)) (y # zs)) \<le> m"
    by (cases n) simp_all
  let ?T = "join (CHR '','' # w1) (map f (y # zs)) @ w2 @ CHR '']'' # rest"
  have a: "parse_value m (f x @ CHR '','' # w1 @ ?T) = Some (x, CHR '','' # w1 @ ?T)"
    using 3(5) [of x m] m by (simp add: delimited_def)
  have b: "parse_elements m ?T = Some (y # zs, rest)"
    using 3(2) [of m] m(3) 3(5) by simp
  show ?case
    using a b assms(1)
    by (simp add: m skip_ws_start is_ws_def parse_elements_blank)
qed

lemma parse_chars_quoted:
  "parse_chars (tl (quote k) @ rest) = Some (k, rest)"
  by (simp add: quote_def parse_chars_quote)

lemma members_roundtrip:
  assumes "blank w1" and "blank w2" and "blank w3"
    and "\<And>k v n rest. (k, v) \<in> set kvs \<Longrightarrow> wt v \<le> n \<Longrightarrow> delimited rest
            \<Longrightarrow> parse_value n (f v @ rest) = Some (v, rest)"
  shows "kvs \<noteq> [] \<Longrightarrow> sum_list (map (\<lambda>(k, v). Suc (wt v)) kvs) \<le> n \<Longrightarrow>
         parse_members n
           (join (CHR '','' # w1) (map (\<lambda>(k, v). quote k @ CHR '':'' # w3 @ f v) kvs)
              @ w2 @ CHR ''}'' # rest)
           = Some (kvs, rest)"
  using assms(4)
proof (induction kvs arbitrary: n rule: induct_list012)
  case 1
  then show ?case by simp
next
  case (2 kv)
  obtain k v where kv: "kv = (k, v)" by (cases kv)
  from 2(2) obtain m where m: "n = Suc m" "wt v \<le> m"
    by (cases n) (simp_all add: kv)
  have a: "parse_value m (w3 @ f v @ w2 @ CHR ''}'' # rest) = Some (v, w2 @ CHR ''}'' # rest)"
    using 2(3) [of k v m] m assms(2,3)
    by (simp add: kv delimited_blank_brace parse_value_blank)
  show ?case
    using a assms(2)
    by (simp add: kv m quote_def skip_ws_start is_ws_def parse_chars_quote skip_ws_blank_char)
next
  case (3 kv kv' zs)
  obtain k v where kv: "kv = (k, v)" by (cases kv)
  from 3(4) obtain m where m: "n = Suc m" "wt v \<le> m"
      "sum_list (map (\<lambda>(k, v). Suc (wt v)) (kv' # zs)) \<le> m"
    by (cases n) (simp_all add: kv)
  let ?g = "\<lambda>(k, v). quote k @ CHR '':'' # w3 @ f v"
  let ?T = "join (CHR '','' # w1) (map ?g (kv' # zs)) @ w2 @ CHR ''}'' # rest"
  have a: "parse_value m (w3 @ f v @ CHR '','' # w1 @ ?T) = Some (v, CHR '','' # w1 @ ?T)"
    using 3(5) [of k v m] m assms(3) by (simp add: kv delimited_def parse_value_blank)
  have b: "parse_members m ?T = Some (kv' # zs, rest)"
  proof (rule 3(2))
    show "kv' # zs \<noteq> []" by simp
    show "sum_list (map (\<lambda>(k, v). Suc (wt v)) (kv' # zs)) \<le> m" by (rule m(3))
    fix k v n rest
    assume "(k, v) \<in> set (kv' # zs)" "wt v \<le> n" "delimited rest"
    then show "parse_value n (f v @ rest) = Some (v, rest)"
      using 3(5) [of k v n rest] by simp
  qed
  show ?case
    using a b assms(1)
    by (simp add: kv m quote_def skip_ws_start is_ws_def parse_chars_quote
          parse_members_blank)
qed

lemma blank_append: "blank (a @ b) \<longleftrightarrow> blank a \<and> blank b"
  by (simp add: blank_def)

lemma blank_newline: "blank (CHR 0x0A # w) \<longleftrightarrow> blank w"
  by (simp add: blank_def is_ws_def)

lemma blank_space: "blank (CHR '' '' # w) \<longleftrightarrow> blank w"
  by (simp add: blank_def is_ws_def)

lemma blank_Nil: "blank []"
  by (simp add: blank_def)

lemma join_map_start:
  assumes "xs \<noteq> []"
  shows "\<exists>t. join sep (map f xs) @ r = f (hd xs) @ t"
proof (cases xs)
  case Nil
  with assms show ?thesis by simp
next
  case (Cons x ys)
  then show ?thesis by (cases ys) simp_all
qed

lemma value_roundtrip:
  assumes "blank gap"
  shows "blank indent \<Longrightarrow> wt v \<le> n \<Longrightarrow> delimited rest
         \<Longrightarrow> parse_value n (serialize gap indent v @ rest) = Some (v, rest)"
proof (induction v arbitrary: indent n rest)
  case JNull
  then obtain m where "n = Suc m" by (cases n) simp_all
  then show ?case by (simp add: skip_ws_start is_ws_def)
next
  case (JBool b)
  then obtain m where "n = Suc m" by (cases n) simp_all
  then show ?case by (cases b) (simp_all add: skip_ws_start is_ws_def)
next
  case (JNum i)
  then obtain m where m: "n = Suc m" by (cases n) simp_all
  obtain c cs where c: "show_int i = c # cs" "\<not> is_ws c" "c \<noteq> CHR '']''"
    using serialize_start [of gap indent "JNum i"] by auto
  have s: "c \<noteq> CHR ''['' \<and> c \<noteq> CHR ''{'' \<and> c \<noteq> CHR 0x22 \<and> c \<noteq> CHR ''n''
           \<and> c \<noteq> CHR ''t'' \<and> c \<noteq> CHR ''f''"
  proof (cases "i < 0")
    case True
    with c show ?thesis by (auto simp add: show_int_def)
  next
    case False
    obtain d ds where d: "show_nat (nat i) = d # ds" "is_digit d"
      using show_nat_start by blast
    with False c have "is_digit c" by (simp add: show_int_def)
    then show ?thesis by (auto simp add: is_digit_def digit_val_def split: if_splits)
  qed
  have "parse_number (c # cs @ rest) = Some (JNum i, rest)"
    using parse_number_show_int [OF JNum(3), of i] c by simp
  with s c show ?case by (simp add: m skip_ws_start)
next
  case (JStr s)
  then obtain m where "n = Suc m" by (cases n) simp_all
  then show ?case by (simp add: quote_def skip_ws_start is_ws_def parse_chars_quote)
next
  case (JArr xs)
  from JArr(3) obtain m where m: "n = Suc m" "sum_list (map (\<lambda>x. Suc (wt x)) xs) \<le> m"
    by (cases n) simp_all
  show ?case
  proof (cases "xs = []")
    case True
    then show ?thesis by (simp add: m skip_ws_start is_ws_def)
  next
    case False
    let ?f = "serialize gap (indent @ gap)"
    let ?w1 = "if gap = [] then [] else CHR 0x0A # indent @ gap"
    let ?w2 = "if gap = [] then [] else CHR 0x0A # indent"
    let ?T = "join (CHR '','' # ?w1) (map ?f xs) @ ?w2 @ CHR '']'' # rest"
    have bl: "blank (indent @ gap)" "blank ?w1" "blank ?w2"
      using assms JArr(2) by (simp_all add: blank_append blank_newline blank_Nil)
    have ih: "\<And>x n rest. x \<in> set xs \<Longrightarrow> wt x \<le> n \<Longrightarrow> delimited rest
                \<Longrightarrow> parse_value n (?f x @ rest) = Some (x, rest)"
      using JArr(1) bl(1) by blast
    have e: "parse_elements m ?T = Some (xs, rest)"
      using elements_roundtrip [OF bl(2) bl(3) ih False m(2)] by simp
    obtain t where t: "?T = ?f (hd xs) @ t"
      using join_map_start [OF False, of "CHR '','' # ?w1" ?f] by blast
    obtain c cs where c: "?f (hd xs) = c # cs" "\<not> is_ws c" "c \<noteq> CHR '']''"
      using serialize_start by blast
    have st: "skip_ws (?w1 @ ?T) = c # cs @ t"
      using bl(2) c t by (simp add: skip_ws_blank skip_ws_start)
    have ser: "serialize gap indent (JArr xs) @ rest = CHR ''['' # ?w1 @ ?T"
      using False by simp
    show ?thesis
      unfolding ser using e st c(3) bl(2)
      by (simp add: m skip_ws_start is_ws_def parse_elements_blank)
  qed
next
  case (JObj kvs)
  from JObj(3) obtain m where m: "n = Suc m"
      "sum_list (map (\<lambda>(k, v). Suc (wt v)) kvs) \<le> m"
    by (cases n) simp_all
  show ?case
  proof (cases "kvs = []")
    case True
    then show ?thesis by (simp add: m skip_ws_start is_ws_def)
  next
    case False
    let ?f = "serialize gap (indent @ gap)"
    let ?w1 = "if gap = [] then [] else CHR 0x0A # indent @ gap"
    let ?w2 = "if gap = [] then [] else CHR 0x0A # indent"
    let ?w3 = "if gap = [] then [] else '' ''"
    let ?g = "\<lambda>(k, v). quote k @ CHR '':'' # ?w3 @ ?f v"
    let ?T = "join (CHR '','' # ?w1) (map ?g kvs) @ ?w2 @ CHR ''}'' # rest"
    have bl: "blank (indent @ gap)" "blank ?w1" "blank ?w2" "blank ?w3"
      using assms JObj(2) by (simp_all add: blank_append blank_newline blank_Nil blank_space)
    have ih: "\<And>k v n rest. (k, v) \<in> set kvs \<Longrightarrow> wt v \<le> n \<Longrightarrow> delimited rest
                \<Longrightarrow> parse_value n (?f v @ rest) = Some (v, rest)"
      using JObj(1) bl(1) by fastforce
    have e: "parse_members m ?T = Some (kvs, rest)"
      using members_roundtrip [OF bl(2) bl(3) bl(4) ih False m(2)] by simp
    obtain t where t: "?T = ?g (hd kvs) @ t"
      using join_map_start [OF False, of "CHR '','' # ?w1" ?g] by blast
    obtain k v where kv: "hd kvs = (k, v)" by (cases "hd kvs")
    have st: "skip_ws (?w1 @ ?T) = CHR 0x22 # tl (?g (hd kvs)) @ t"
      using bl(2) t by (simp add: kv skip_ws_blank skip_ws_start quote_def is_ws_def)
    have ser: "serialize gap indent (JObj kvs) @ rest = CHR ''{'' # ?w1 @ ?T"
      using False by (simp add: case_prod_unfold)
    show ?thesis
      unfolding ser using e st bl(2)
      by (simp add: m skip_ws_start is_ws_def parse_members_blank)
  qed
qed

lemma join_length:
  "sep \<noteq> [] \<Longrightarrow> xs \<noteq> []
     \<Longrightarrow> sum_list (map (\<lambda>x. Suc (length x)) xs) \<le> Suc (length (join sep xs))"
proof (induction xs rule: induct_list012)
  case 1
  then show ?case by simp
next
  case (2 x)
  show ?case by simp
next
  case (3 x y zs)
  then have "sum_list (map (\<lambda>x. Suc (length x)) (y # zs)) \<le> Suc (length (join sep (y # zs)))"
    by simp
  moreover have "1 \<le> length sep" using 3(3) by (cases sep) simp_all
  ultimately show ?case by simp
qed

lemma wt_le_length: "wt v \<le> length (serialize gap indent v)"
proof (induction v arbitrary: indent)
  case (JNum i)
  show ?case
    using show_nat_not_Nil [of "nat i"]
    by (cases "show_nat (nat i)") (simp_all add: show_int_def)
next
  case (JStr s)
  show ?case by (simp add: quote_def)
next
  case (JArr xs)
  show ?case
  proof (cases "xs = []")
    case True
    then show ?thesis by simp
  next
    case False
    let ?f = "serialize gap (indent @ gap)"
    have "sum_list (map (\<lambda>x. Suc (wt x)) xs) \<le> sum_list (map (\<lambda>x. Suc (length (?f x))) xs)"
      using JArr by (intro sum_list_mono) simp
    also have "\<dots> = sum_list (map (\<lambda>x. Suc (length x)) (map ?f xs))"
      by (simp add: comp_def)
    also have "\<dots> \<le> Suc (length (join sep (map ?f xs)))" if "sep \<noteq> []" for sep
      using that False by (intro join_length) simp_all
    finally have b: "sum_list (map (\<lambda>x. Suc (wt x)) xs) \<le> Suc (length (join sep (map ?f xs)))"
      if "sep \<noteq> []" for sep using that by simp
    show ?thesis
    proof (cases "gap = []")
      case True
      with False b [of "'',''"] show ?thesis by simp
    next
      case g: False
      with False b [of "'','' @ [CHR 0x0A] @ indent @ gap"] show ?thesis by simp
    qed
  qed
next
  case (JObj kvs)
  show ?case
  proof (cases "kvs = []")
    case True
    then show ?thesis by simp
  next
    case False
    let ?f = "serialize gap (indent @ gap)"
    have m: "sum_list (map (\<lambda>(k, v). Suc (wt v)) kvs)
               \<le> sum_list (map (\<lambda>x. Suc (length x)) (map (\<lambda>(k, v). quote k @ w @ ?f v) kvs))"
      for w
    proof -
      have "sum_list (map (\<lambda>(k, v). Suc (wt v)) kvs)
              \<le> sum_list (map (\<lambda>(k, v). Suc (length (quote k @ w @ ?f v))) kvs)"
      proof (intro sum_list_mono)
        fix kv assume a: "kv \<in> set kvs"
        obtain k v where kv: "kv = (k, v)" by (cases kv)
        have "wt v \<le> length (?f v)"
          using JObj [of kv v "indent @ gap"] a by (simp add: kv)
        then show "(case kv of (k, v) \<Rightarrow> Suc (wt v))
                     \<le> (case kv of (k, v) \<Rightarrow> Suc (length (quote k @ w @ ?f v)))"
          by (simp add: kv)
      qed
      also have "\<dots> = sum_list (map (\<lambda>x. Suc (length x))
                                 (map (\<lambda>(k, v). quote k @ w @ ?f v) kvs))"
        by (simp add: comp_def case_prod_unfold)
      finally show ?thesis .
    qed
    have b: "sum_list (map (\<lambda>(k, v). Suc (wt v)) kvs)
               \<le> Suc (length (join sep (map (\<lambda>(k, v). quote k @ w @ ?f v) kvs)))"
      if "sep \<noteq> []" for sep w
      using m [of w] join_length [OF that, of "map (\<lambda>(k, v). quote k @ w @ ?f v) kvs"] False
      by simp
    show ?thesis
    proof (cases "gap = []")
      case True
      with False b [of "'',''" "'':''"] show ?thesis by simp
    next
      case g: False
      with False b [of "'','' @ [CHR 0x0A] @ indent @ gap" "'': ''"] show ?thesis by simp
    qed
  qed
qed simp_all

lemma blank_replicate: "blank (replicate k CHR '' '')"
  by (simp add: blank_def is_ws_def list_all_iff)

lemma JSON_parse_serialize:
  assumes "blank gap"
  shows "JSON_parse (serialize gap [] v) = Some v"
proof -
  have "parse_value (length (serialize gap [] v)) (serialize gap [] v @ []) = Some (v, [])"
    using assms by (intro value_roundtrip) (simp_all add: blank_Nil wt_le_length delimited_def)
  then show ?thesis by (simp add: JSON_parse_def skip_ws_def)
qed

lemma JSON_parse_stringify:
  "JSON_stringify (Some v) space = Some s \<Longrightarrow> JSON_parse s = Some v"
  using JSON_parse_serialize [OF blank_replicate] by (auto simp add: JSON_stringify_def)

subsection \<open>The fuel of the parser\<close>

text \<open>
  More fuel never changes what the parser returns, and a parse never needs more fuel
  than the characters it consumes.
\<close>

lemma parse_value_step:
  assumes e: "\<And>t b. parse_elements n t = Some b \<Longrightarrow> parse_elements m t = Some b"
    and o: "\<And>t c. parse_members n t = Some c \<Longrightarrow> parse_members m t = Some c"
    and p: "parse_value (Suc n) s = Some a"
  shows "parse_value (Suc m) s = Some a"
proof (cases "skip_ws s")
  case Nil
  with p show ?thesis by simp
next
  case (Cons c cs)
  show ?thesis
  proof (cases "c = CHR ''[''")
    case True
    show ?thesis
    proof (cases "skip_ws cs")
      case Nil
      with p Cons True show ?thesis by simp
    next
      case (Cons d r)
      show ?thesis
      proof (cases "d = CHR '']''")
        case True
        with p \<open>skip_ws s = c # cs\<close> \<open>c = CHR ''[''\<close> Cons show ?thesis by simp
      next
        case False
        with p \<open>skip_ws s = c # cs\<close> \<open>c = CHR ''[''\<close> Cons
        obtain vs r' where "parse_elements n cs = Some (vs, r')" "a = (JArr vs, r')"
          by (auto split: option.splits)
        with e [of cs "(vs, r')"] False \<open>skip_ws s = c # cs\<close> \<open>c = CHR ''[''\<close> Cons
        show ?thesis by simp
      qed
    qed
  next
    case nb: False
    show ?thesis
    proof (cases "c = CHR ''{''")
      case True
      show ?thesis
      proof (cases "skip_ws cs")
        case Nil
        with p Cons True show ?thesis by simp
      next
        case (Cons d r)
        show ?thesis
        proof (cases "d = CHR ''}''")
          case True
          with p \<open>skip_ws s = c # cs\<close> \<open>c = CHR ''{''\<close> Cons show ?thesis by simp
        next
          case False
          with p \<open>skip_ws s = c # cs\<close> \<open>c = CHR ''{''\<close> Cons
          obtain kvs r' where "parse_members n cs = Some (kvs, r')" "a = (JObj kvs, r')"
            by (auto split: option.splits)
          with o [of cs "(kvs, r')"] False \<open>skip_ws s = c # cs\<close> \<open>c = CHR ''{''\<close> Cons
          show ?thesis by simp
        qed
      qed
    next
      case False
      with p Cons nb show ?thesis by simp
    qed
  qed
qed

lemma parse_elements_step:
  assumes v: "\<And>t a. parse_value n t = Some a \<Longrightarrow> parse_value m t = Some a"
    and e: "\<And>t b. parse_elements n t = Some b \<Longrightarrow> parse_elements m t = Some b"
    and p: "parse_elements (Suc n) s = Some b"
  shows "parse_elements (Suc m) s = Some b"
proof -
  from p obtain x r where 1: "parse_value n s = Some (x, r)"
    by (auto split: option.splits)
  then have 2: "parse_value m s = Some (x, r)" by (rule v)
  show ?thesis
  proof (cases "skip_ws r")
    case Nil
    with p 1 show ?thesis by simp
  next
    case (Cons c r')
    show ?thesis
    proof (cases "c = CHR '',''")
      case True
      with p 1 Cons obtain vs t where "parse_elements n r' = Some (vs, t)" "b = (x # vs, t)"
        by (auto split: option.splits)
      with e [of r' "(vs, t)"] 2 Cons True show ?thesis by simp
    next
      case False
      with p 1 2 Cons show ?thesis by simp
    qed
  qed
qed

lemma parse_members_step:
  assumes v: "\<And>t a. parse_value n t = Some a \<Longrightarrow> parse_value m t = Some a"
    and o: "\<And>t c. parse_members n t = Some c \<Longrightarrow> parse_members m t = Some c"
    and p: "parse_members (Suc n) s = Some c"
  shows "parse_members (Suc m) s = Some c"
proof -
  from p obtain q cs where 1: "skip_ws s = q # cs" "q = CHR 0x22"
    by (auto split: list.splits if_splits)
  with p obtain k r where 2: "parse_chars cs = Some (k, r)"
    by (auto split: option.splits)
  with p 1 obtain d r' where 3: "skip_ws r = d # r'" "d = CHR '':''"
    by (auto split: list.splits if_splits)
  with p 1 2 obtain x r'' where 4: "parse_value n r' = Some (x, r'')"
    by (auto split: option.splits)
  then have 5: "parse_value m r' = Some (x, r'')" by (rule v)
  show ?thesis
  proof (cases "skip_ws r''")
    case Nil
    with p 1 2 3 4 show ?thesis by simp
  next
    case (Cons e t)
    show ?thesis
    proof (cases "e = CHR '',''")
      case True
      with p 1 2 3 4 Cons obtain kvs t' where "parse_members n t = Some (kvs, t')"
          "c = ((k, x) # kvs, t')"
        by (auto split: option.splits)
      with o [of t "(kvs, t')"] 1 2 3 5 Cons True show ?thesis by simp
    next
      case False
      with p 1 2 3 4 5 Cons show ?thesis by simp
    qed
  qed
qed

lemma parse_fuel_mono:
  "n \<le> m \<Longrightarrow>
     (\<forall>s a. parse_value n s = Some a \<longrightarrow> parse_value m s = Some a)
     \<and> (\<forall>s b. parse_elements n s = Some b \<longrightarrow> parse_elements m s = Some b)
     \<and> (\<forall>s c. parse_members n s = Some c \<longrightarrow> parse_members m s = Some c)"
proof (induction n arbitrary: m)
  case 0
  show ?case by simp
next
  case (Suc n)
  then obtain k where k: "m = Suc k" "n \<le> k" by (cases m) simp_all
  from Suc.IH [OF k(2)]
  have v: "\<And>t a. parse_value n t = Some a \<Longrightarrow> parse_value k t = Some a"
    and e: "\<And>t b. parse_elements n t = Some b \<Longrightarrow> parse_elements k t = Some b"
    and o: "\<And>t c. parse_members n t = Some c \<Longrightarrow> parse_members k t = Some c"
    by blast+
  show ?case
    unfolding k(1)
    using parse_value_step [OF e o] parse_elements_step [OF v e] parse_members_step [OF v o]
    by blast
qed

lemma skip_ws_length: "length (skip_ws s) \<le> length s"
  by (simp add: skip_ws_def length_dropWhile_le)

lemma skip_ws_Cons_length: "skip_ws s = c # cs \<Longrightarrow> length cs < length s"
  using skip_ws_length [of s] by simp

lemma strip_prefix_length: "strip_prefix p s = Some r \<Longrightarrow> length r \<le> length s"
  by (induction p s rule: strip_prefix.induct) (auto split: if_splits)

lemma cons_char_Some:
  "cons_char c x = Some (str, r) \<Longrightarrow> \<exists>str'. x = Some (str', r)"
  by (cases x) (auto simp add: cons_char_def)

lemma parse_chars_length: "parse_chars s = Some (str, r) \<Longrightarrow> length r < length s"
proof (induction s arbitrary: str rule: length_induct)
  case (1 s)
  show ?case
  proof (cases s)
    case Nil
    with 1(2) show ?thesis by simp
  next
    case (Cons c cs)
    have ih: "\<And>t str'. length t < length s \<Longrightarrow> parse_chars t = Some (str', r)
                \<Longrightarrow> length r < length t"
      using 1(1) by blast
    show ?thesis
    proof (cases "c = CHR 0x22")
      case True
      with 1(2) Cons show ?thesis by simp
    next
      case nq: False
      show ?thesis
      proof (cases "c = CHR 0x5C")
        case False
        with 1(2) Cons nq obtain str' where "parse_chars cs = Some (str', r)"
          by (auto split: if_splits dest: cons_char_Some)
        with ih [of cs str'] Cons show ?thesis by simp
      next
        case True
        with 1(2) Cons nq obtain e t where t: "cs = e # t"
          by (cases cs) auto
        show ?thesis
        proof (cases "e = CHR ''u''")
          case False
          with 1(2) Cons nq True t obtain str' where "parse_chars t = Some (str', r)"
            by (auto split: option.splits dest: cons_char_Some)
          with ih [of t str'] Cons t show ?thesis by simp
        next
          case u: True
          with 1(2) Cons nq True t obtain h1 h2 h3 h4 t' str'
            where "t = h1 # h2 # h3 # h4 # t'" "parse_chars t' = Some (str', r)"
            by (auto split: list.splits option.splits if_splits dest: cons_char_Some)
          with ih [of t' str'] Cons t show ?thesis by simp
        qed
      qed
    qed
  qed
qed

lemma parse_nat_length: "parse_nat s = Some (n, r) \<Longrightarrow> length r < length s"
proof -
  assume a: "parse_nat s = Some (n, r)"
  then have "takeWhile is_digit s \<noteq> []" and "r = dropWhile is_digit s"
    by (auto simp add: parse_nat_def Let_def split: if_splits)
  moreover have "length (takeWhile is_digit s) + length (dropWhile is_digit s) = length s"
    by (metis length_append takeWhile_dropWhile_id)
  ultimately show ?thesis
    by (cases "takeWhile is_digit s") simp_all
qed

lemma parse_number_length: "parse_number s = Some (v, r) \<Longrightarrow> length r < length s"
  by (cases s)
     (auto simp add: parse_number_def split: if_splits option.splits
           dest: parse_nat_length less_SucI)

lemma parse_elements_mono:
  "parse_elements n s = Some b \<Longrightarrow> n \<le> m \<Longrightarrow> parse_elements m s = Some b"
  using parse_fuel_mono [of n m] by blast

lemma parse_members_mono:
  "parse_members n s = Some c \<Longrightarrow> n \<le> m \<Longrightarrow> parse_members m s = Some c"
  using parse_fuel_mono [of n m] by blast

lemma parse_value_mono:
  "parse_value n s = Some a \<Longrightarrow> n \<le> m \<Longrightarrow> parse_value m s = Some a"
  using parse_fuel_mono [of n m] by blast

lemma parse_value_bound_step:
  assumes e: "\<And>t vs r. parse_elements n t = Some (vs, r)
                \<Longrightarrow> length r < length t \<and> parse_elements (length t - length r) t = Some (vs, r)"
    and o: "\<And>t kvs r. parse_members n t = Some (kvs, r)
                \<Longrightarrow> length r < length t \<and> parse_members (length t - length r) t = Some (kvs, r)"
    and p: "parse_value (Suc n) s = Some (v, r)"
  shows "length r < length s \<and> parse_value (length s - length r) s = Some (v, r)"
proof (cases "skip_ws s")
  case Nil
  with p show ?thesis by simp
next
  case (Cons c cs)
  then have lcs: "length cs < length s" by (rule skip_ws_Cons_length)
  have leaf: ?thesis if "length r \<le> length cs" and "\<And>k. parse_value (Suc k) s = Some (v, r)"
  proof -
    from that(1) lcs obtain k where "length s - length r = Suc k"
      by (cases "length s - length r") simp_all
    with that lcs show ?thesis by simp
  qed
  show ?thesis
  proof (cases "c = CHR ''[''")
    case True
    show ?thesis
    proof (cases "skip_ws cs")
      case Nil
      with p Cons True show ?thesis by simp
    next
      case d: (Cons d r0)
      show ?thesis
      proof (cases "d = CHR '']''")
        case True
        with p Cons \<open>c = CHR ''[''\<close> d have "v = JArr []" "r = r0" by simp_all
        with skip_ws_Cons_length [OF d] Cons \<open>c = CHR ''[''\<close> d True show ?thesis
          by (intro leaf) simp_all
      next
        case False
        with p Cons \<open>c = CHR ''[''\<close> d
        obtain vs where 1: "parse_elements n cs = Some (vs, r)" "v = JArr vs"
          by (auto split: option.splits)
        from e [OF 1(1)] have 2: "length r < length cs"
          "parse_elements (length cs - length r) cs = Some (vs, r)" by simp_all
        from 2(1) lcs obtain k where k: "length s - length r = Suc k" "length cs - length r \<le> k"
          by (cases "length s - length r") simp_all
        from parse_elements_mono [OF 2(2) k(2)] Cons \<open>c = CHR ''[''\<close> d False 1(2)
        have "parse_value (Suc k) s = Some (v, r)" by simp
        with 2(1) lcs k(1) show ?thesis by simp
      qed
    qed
  next
    case nb: False
    show ?thesis
    proof (cases "c = CHR ''{''")
      case True
      show ?thesis
      proof (cases "skip_ws cs")
        case Nil
        with p Cons True show ?thesis by simp
      next
        case d: (Cons d r0)
        show ?thesis
        proof (cases "d = CHR ''}''")
          case True
          with p Cons \<open>c = CHR ''{''\<close> d have "v = JObj []" "r = r0" by simp_all
          with skip_ws_Cons_length [OF d] Cons \<open>c = CHR ''{''\<close> d True show ?thesis
            by (intro leaf) simp_all
        next
          case False
          with p Cons \<open>c = CHR ''{''\<close> d
          obtain kvs where 1: "parse_members n cs = Some (kvs, r)" "v = JObj kvs"
            by (auto split: option.splits)
          from o [OF 1(1)] have 2: "length r < length cs"
            "parse_members (length cs - length r) cs = Some (kvs, r)" by simp_all
          from 2(1) lcs obtain k where k: "length s - length r = Suc k"
              "length cs - length r \<le> k"
            by (cases "length s - length r") simp_all
          from parse_members_mono [OF 2(2) k(2)] Cons \<open>c = CHR ''{''\<close> d False 1(2)
          have "parse_value (Suc k) s = Some (v, r)" by simp
          with 2(1) lcs k(1) show ?thesis by simp
        qed
      qed
    next
      case no: False
      have any: "parse_value (Suc k) s = Some (v, r)" for k
        using p Cons nb no by simp
      have "length r \<le> length cs"
        using p Cons nb no
        by (auto split: if_splits option.splits
                 dest: parse_chars_length strip_prefix_length parse_number_length)
      then show ?thesis using any by (rule leaf)
    qed
  qed
qed

lemma parse_elements_bound_step:
  assumes v: "\<And>t x r. parse_value n t = Some (x, r)
                \<Longrightarrow> length r < length t \<and> parse_value (length t - length r) t = Some (x, r)"
    and e: "\<And>t vs r. parse_elements n t = Some (vs, r)
                \<Longrightarrow> length r < length t \<and> parse_elements (length t - length r) t = Some (vs, r)"
    and p: "parse_elements (Suc n) s = Some (vs, r)"
  shows "length r < length s \<and> parse_elements (length s - length r) s = Some (vs, r)"
proof -
  from p obtain x r1 where 1: "parse_value n s = Some (x, r1)"
    by (auto split: option.splits)
  from v [OF 1] have 2: "length r1 < length s"
    "parse_value (length s - length r1) s = Some (x, r1)" by simp_all
  show ?thesis
  proof (cases "skip_ws r1")
    case Nil
    with p 1 show ?thesis by simp
  next
    case (Cons c r2)
    then have l2: "length r2 < length r1" by (rule skip_ws_Cons_length)
    show ?thesis
    proof (cases "c = CHR '',''")
      case True
      with p 1 Cons obtain ws where 3: "parse_elements n r2 = Some (ws, r)" "vs = x # ws"
        by (auto split: option.splits)
      from e [OF 3(1)] have 4: "length r < length r2"
        "parse_elements (length r2 - length r) r2 = Some (ws, r)" by simp_all
      from 4(1) l2 2(1) obtain k where k: "length s - length r = Suc k"
          "length s - length r1 \<le> k" "length r2 - length r \<le> k"
        by (cases "length s - length r") simp_all
      from parse_value_mono [OF 2(2) k(2)] parse_elements_mono [OF 4(2) k(3)] Cons True 3(2)
      have "parse_elements (Suc k) s = Some (vs, r)" by simp
      with 4(1) l2 2(1) k(1) show ?thesis by simp
    next
      case False
      with p 1 Cons have 3: "c = CHR '']''" "vs = [x]" "r = r2"
        by (auto split: if_splits)
      from l2 2(1) 3(3) obtain k where k: "length s - length r = Suc k"
          "length s - length r1 \<le> k"
        by (cases "length s - length r") simp_all
      from parse_value_mono [OF 2(2) k(2)] Cons 3
      have "parse_elements (Suc k) s = Some (vs, r)" by simp
      with l2 2(1) 3(3) k(1) show ?thesis by simp
    qed
  qed
qed

lemma parse_members_bound_step:
  assumes v: "\<And>t x r. parse_value n t = Some (x, r)
                \<Longrightarrow> length r < length t \<and> parse_value (length t - length r) t = Some (x, r)"
    and o: "\<And>t kvs r. parse_members n t = Some (kvs, r)
                \<Longrightarrow> length r < length t \<and> parse_members (length t - length r) t = Some (kvs, r)"
    and p: "parse_members (Suc n) s = Some (kvs, r)"
  shows "length r < length s \<and> parse_members (length s - length r) s = Some (kvs, r)"
proof -
  from p obtain q cs where 1: "skip_ws s = q # cs" "q = CHR 0x22"
    by (auto split: list.splits if_splits)
  with p obtain key r1 where 2: "parse_chars cs = Some (key, r1)"
    by (auto split: option.splits)
  with p 1 obtain d r2 where 3: "skip_ws r1 = d # r2" "d = CHR '':''"
    by (auto split: list.splits if_splits)
  with p 1 2 obtain x r3 where 4: "parse_value n r2 = Some (x, r3)"
    by (auto split: option.splits)
  from v [OF 4] have 5: "length r3 < length r2"
    "parse_value (length r2 - length r3) r2 = Some (x, r3)" by simp_all
  have l: "length cs < length s" "length r1 < length cs" "length r2 < length r1"
    using skip_ws_Cons_length [OF 1(1)] parse_chars_length [OF 2] skip_ws_Cons_length [OF 3(1)]
    by simp_all
  show ?thesis
  proof (cases "skip_ws r3")
    case Nil
    with p 1 2 3 4 show ?thesis by simp
  next
    case (Cons c r4)
    then have l4: "length r4 < length r3" by (rule skip_ws_Cons_length)
    show ?thesis
    proof (cases "c = CHR '',''")
      case True
      with p 1 2 3 4 Cons obtain ws where 6: "parse_members n r4 = Some (ws, r)"
          "kvs = (key, x) # ws"
        by (auto split: option.splits)
      from o [OF 6(1)] have 7: "length r < length r4"
        "parse_members (length r4 - length r) r4 = Some (ws, r)" by simp_all
      from 7(1) l4 5(1) l obtain k where k: "length s - length r = Suc k"
          "length r2 - length r3 \<le> k" "length r4 - length r \<le> k"
        by (cases "length s - length r") simp_all
      from parse_value_mono [OF 5(2) k(2)] parse_members_mono [OF 7(2) k(3)]
        1 2 3 Cons True 6(2)
      have "parse_members (Suc k) s = Some (kvs, r)" by simp
      with 7(1) l4 5(1) l k(1) show ?thesis by simp
    next
      case False
      with p 1 2 3 4 Cons have 6: "c = CHR ''}''" "kvs = [(key, x)]" "r = r4"
        by (auto split: if_splits)
      from l4 5(1) l 6(3) obtain k where k: "length s - length r = Suc k"
          "length r2 - length r3 \<le> k"
        by (cases "length s - length r") simp_all
      from parse_value_mono [OF 5(2) k(2)] 1 2 3 Cons 6
      have "parse_members (Suc k) s = Some (kvs, r)" by simp
      with l4 5(1) l 6(3) k(1) show ?thesis by simp
    qed
  qed
qed

lemma parse_fuel_bound:
  "(\<forall>s x r. parse_value n s = Some (x, r)
       \<longrightarrow> length r < length s \<and> parse_value (length s - length r) s = Some (x, r))
   \<and> (\<forall>s vs r. parse_elements n s = Some (vs, r)
       \<longrightarrow> length r < length s \<and> parse_elements (length s - length r) s = Some (vs, r))
   \<and> (\<forall>s kvs r. parse_members n s = Some (kvs, r)
       \<longrightarrow> length r < length s \<and> parse_members (length s - length r) s = Some (kvs, r))"
proof (induction n)
  case 0
  show ?case by simp
next
  case (Suc n)
  then have v: "\<And>t x r. parse_value n t = Some (x, r)
                \<Longrightarrow> length r < length t \<and> parse_value (length t - length r) t = Some (x, r)"
    and e: "\<And>t vs r. parse_elements n t = Some (vs, r)
                \<Longrightarrow> length r < length t \<and> parse_elements (length t - length r) t = Some (vs, r)"
    and o: "\<And>t kvs r. parse_members n t = Some (kvs, r)
                \<Longrightarrow> length r < length t \<and> parse_members (length t - length r) t = Some (kvs, r)"
    by blast+
  show ?case
    using parse_value_bound_step [OF e o] parse_elements_bound_step [OF v e]
      parse_members_bound_step [OF v o]
    by blast
qed

text \<open>The fuel of \<open>JSON_parse\<close> is enough for every text: a value that any amount of fuel
  finds is the value \<open>JSON_parse\<close> returns.\<close>

lemma JSON_parse_fuel:
  assumes "parse_value n s = Some (v, r)" and "skip_ws r = []"
  shows "JSON_parse s = Some v"
proof -
  from assms(1) parse_fuel_bound [of n]
  have "parse_value (length s - length r) s = Some (v, r)" by blast
  then have "parse_value (length s) s = Some (v, r)"
    by (rule parse_value_mono) simp
  with assms(2) show ?thesis by (simp add: JSON_parse_def)
qed

lemma JSON_stringify_2:
  "JSON_stringify (Some v) 2 = Some (serialize ''  '' [] v)"
  by (simp add: JSON_stringify_def numeral_2_eq_2 del: serialize.simps)

section \<open>The claims\<close>

subsection \<open>C1: the request of \<^verbatim>\<open>translate_text\<close>\<close>

text \<open>
  C1 says that the body of the one POST contains \<^verbatim>\<open>source_lang\<close> if and only if the caller
  provided it, and that an empty string does not count as an omission. The handler
  spreads \<^verbatim>\<open>source_lang && {source_lang}\<close>, and the empty string is falsy: a valid
  request whose \<^verbatim>\<open>source_lang\<close> is the empty string is sent without the member.
\<close>

theorem translate_empty_source_lang_omitted:
  "valid_TranslateRequest (Some empty_source_args)
   \<and> get_opt (Some empty_source_args) ''source_lang'' = Some (JStr [])
   \<and> snd (callTool example_libs example_upstream ''translate_text'' (Some empty_source_args))
       = [POST ''/v2/translate''
            (JObj [(''text'', JArr [JStr ''Hello world'']), (''target_lang'', JStr ''DE'')])]"
  by (simp add: callTool_def dispatch_def callTranslateText_def translate_body_def
        json_content_def JSON_stringify_def empty_source_args_def example_upstream_def
        valid_TranslateRequest_def is_object_def is_string_sequence_def is_empty_sequence_def
        is_string_def)

text \<open>
  C1 as amended: for every valid TranslateRequest the call issues exactly one upstream
  request, a POST to \<^verbatim>\<open>/v2/translate\<close>, whose body has the \<^verbatim>\<open>text\<close> and the \<^verbatim>\<open>target_lang\<close>
  of the arguments, and has their \<^verbatim>\<open>source_lang\<close> if and only if the caller provided
  one that is not the empty string.
\<close>

theorem translate_issues_one_post:
  assumes "valid_TranslateRequest args"
  shows "\<exists>body. snd (callTool L up ''translate_text'' args) = [POST ''/v2/translate'' body]
           \<and> get_opt (Some body) ''text'' = get_opt args ''text''
           \<and> get_opt (Some body) ''target_lang'' = get_opt args ''target_lang''
           \<and> get_opt (Some body) ''source_lang''
               = (if get_opt args ''source_lang'' = Some (JStr []) then None
                  else get_opt args ''source_lang'')"
proof -
  from assms obtain v where v: "TranslateTextInputSchema_parse args = Inr v"
    using TranslateTextInputSchema_parse_valid by blast
  then have calls: "snd (callTool L up ''translate_text'' args)
                      = [POST ''/v2/translate'' (translate_body v)]"
    by (simp add: callTool_calls dispatch_def callTranslateText_calls)
  from v have m: "get_opt args ''text'' = Some (JArr (map JStr (v_text v)))"
      "get_opt args ''target_lang'' = Some (JStr (v_target_lang v))"
      "get_opt args ''source_lang'' = map_option JStr (v_source_lang v)"
    by (simp_all add: TranslateTextInputSchema_parse_Inr)
  have "get_opt (Some (translate_body v)) ''text'' = get_opt args ''text''"
    by (simp add: translate_body_def m)
  moreover have "get_opt (Some (translate_body v)) ''target_lang'' = get_opt args ''target_lang''"
    by (simp add: translate_body_def m)
  moreover have "get_opt (Some (translate_body v)) ''source_lang''
                   = (if get_opt args ''source_lang'' = Some (JStr []) then None
                      else get_opt args ''source_lang'')"
    by (cases "v_source_lang v") (simp_all add: translate_body_def m)
  ultimately show ?thesis using calls by blast
qed

theorem translate_issues_one_post_witness:
  "valid_TranslateRequest (Some example_args)
   \<and> (\<exists>body. snd (callTool example_libs example_upstream ''translate_text'' (Some example_args))
                = [POST ''/v2/translate'' body]
           \<and> get_opt (Some body) ''text'' = Some (JArr [JStr ''Hello world''])
           \<and> get_opt (Some body) ''target_lang'' = Some (JStr ''DE'')
           \<and> get_opt (Some body) ''source_lang'' = None)"
proof -
  have h: "valid_TranslateRequest (Some example_args)"
    by (simp add: example_args_def valid_TranslateRequest_def
        is_object_def is_string_sequence_def is_empty_sequence_def is_string_def)
  show ?thesis
    using h translate_issues_one_post [OF h, of example_libs example_upstream]
    by (simp add: example_args_def)
qed

subsection \<open>C2: malformed arguments of \<^verbatim>\<open>translate_text\<close>\<close>

text \<open>
  C2: when \<^verbatim>\<open>text\<close> is missing, is not a sequence of strings or is empty, or when
  \<^verbatim>\<open>target_lang\<close> is missing or is not a string, the tool answers with an \<^verbatim>\<open>InvalidParams\<close>
  error response and issues no upstream request. A missing member reads as \<open>None\<close>, which
  is neither a sequence of strings nor a string.
\<close>

theorem translate_rejects_malformed:
  assumes "\<not> is_string_sequence (get_opt args ''text'')
           \<or> is_empty_sequence (get_opt args ''text'')
           \<or> \<not> is_string (get_opt args ''target_lang'')"
  shows "\<exists>issues r. callTool L up ''translate_text'' args = (Inr r, [])
           \<and> handleToolError L (Zod issues) = Inr r
           \<and> errorCode r = Some InvalidParams
           \<and> isError r = Some True"
proof -
  from assms have "\<not> valid_TranslateRequest args"
    by (auto simp add: valid_TranslateRequest_def)
  then have "\<not> (\<exists>v. TranslateTextInputSchema_parse args = Inr v)"
    by (simp add: TranslateTextInputSchema_parse_valid)
  then obtain issues where i: "TranslateTextInputSchema_parse args = Inl issues"
    by (cases "TranslateTextInputSchema_parse args") auto
  let ?E = "new_McpError L InvalidParams ''Input validation failed''
              (Some (JArr (map (issue_json L) issues)))"
  let ?r = "\<lparr>content = [\<lparr>block_type = ''text'', block_text = Some (error_text ?E),
                           block_mimeType = None\<rparr>],
              isError = Some True, errorCode = Some (code ?E)\<rparr>"
  have h: "handleToolError L (Zod issues) = Inr ?r"
    by (rule handleToolError_Inr) simp
  have "callTool L up ''translate_text'' args = (Inr ?r, [])"
    using i h by (simp add: callTool_def dispatch_def callTranslateText_def)
  moreover have "errorCode ?r = Some InvalidParams"
    by (simp add: new_McpError_def)
  moreover have "isError ?r = Some True"
    by simp
  ultimately show ?thesis using h by blast
qed

theorem translate_rejects_malformed_witness:
  "is_empty_sequence (get_opt (Some empty_text_args) ''text'')
   \<and> (\<exists>issues r. callTool example_libs example_upstream ''translate_text'' (Some empty_text_args)
                    = (Inr r, [])
           \<and> handleToolError example_libs (Zod issues) = Inr r
           \<and> errorCode r = Some InvalidParams
           \<and> isError r = Some True)"
proof -
  have h: "is_empty_sequence (get_opt (Some empty_text_args) ''text'')"
    by (simp add: empty_text_args_def is_empty_sequence_def)
  then have "\<not> is_string_sequence (get_opt (Some empty_text_args) ''text'')
           \<or> is_empty_sequence (get_opt (Some empty_text_args) ''text'')
           \<or> \<not> is_string (get_opt (Some empty_text_args) ''target_lang'')"
    by simp
  from translate_rejects_malformed [OF this, of example_libs example_upstream] h
  show ?thesis by simp
qed

subsection \<open>C3: an upstream failure with a status\<close>

text \<open>
  C3 says that the result is annotated with the message of the upstream body, and with
  the message of the axios error when the body has none. The handler takes
  \<^verbatim>\<open>data?.message || axiosError.message\<close>: a body whose message is the empty string has a
  message, and the result is annotated with the message of the axios error all the same.
\<close>

theorem http_failure_empty_message_falls_back:
  "get_opt (Some (JObj [(''message'', JStr [])])) ''message'' = Some (JStr [])
   \<and> mcpError_of example_libs
         (http_failure ''Request failed with status code 400'' 400
            (JObj [(''message'', JStr [])]))
       = Inr \<lparr>code = InvalidParams,
              message = ''MCP error -32602: DeepL API Error (400): Request failed with status code 400'',
              data = Some (JObj [(''message'', JStr [])])\<rparr>"
  by (simp add: http_failure_def new_McpError_def Let_def status_text_def axios_text_def
        axios_errorCode_def example_libs_def ErrorCode_number_def show_int_def show_nat.simps
        digit_char_def)

text \<open>
  C3 as amended: for an upstream failure with a status and a body whose message is
  printable (no object with a \<^verbatim>\<open>toString\<close> member, alone or in an array, unless the message
  is not taken), the normalizer returns an error, and its code depends on the status
  alone: 400 gives \<^verbatim>\<open>InvalidParams\<close>, 401 to 499 give \<^verbatim>\<open>InvalidRequest\<close>, 500 and above give \<^verbatim>\<open>InternalError\<close>. The error is built with that code,
  with the text \<^verbatim>\<open>DeepL API Error (<status>): <message>\<close> and with the raw body as its
  details, and the response is the one of that error: the text \<^verbatim>\<open>Error: \<close> and the
  message of the error, then the line of details unless the body is \<^verbatim>\<open>null\<close>, \<^verbatim>\<open>false\<close>,
  \<^verbatim>\<open>0\<close> or the empty string. The \<^verbatim>\<open><message>\<close> is the message of the axios error when the
  body has no \<^verbatim>\<open>message\<close> or one that is \<^verbatim>\<open>null\<close>, \<^verbatim>\<open>false\<close>, \<^verbatim>\<open>0\<close> or the empty string;
  otherwise it is the \<^verbatim>\<open>message\<close> of the body as a template literal prints it: a string
  as it is, a number in decimal, \<^verbatim>\<open>true\<close>, \<^verbatim>\<open>[object Object]\<close> for an object, the elements
  joined by commas for an array of strings.
\<close>

theorem http_failure_classified:
  assumes "printable_message d"
  shows "(s = 400 \<longrightarrow> axios_errorCode (Some s) = InvalidParams)
       \<and> (401 \<le> s \<and> s \<le> 499 \<longrightarrow> axios_errorCode (Some s) = InvalidRequest)
       \<and> (500 \<le> s \<longrightarrow> axios_errorCode (Some s) = InternalError)
       \<and> (\<exists>msg.
            mcpError_of L (http_failure tm s d)
              = Inr \<lparr>code = axios_errorCode (Some s),
                     message = mcp_message L (axios_errorCode (Some s))
                                 (''DeepL API Error ('' @ show_nat s @ ''): '' @ msg),
                     data = Some d\<rparr>
          \<and> handleToolError L (http_failure tm s d)
              = Inr \<lparr>content = [\<lparr>block_type = ''text'',
                       block_text = Some (''Error: ''
                         @ mcp_message L (axios_errorCode (Some s))
                             (''DeepL API Error ('' @ show_nat s @ ''): '' @ msg)
                         @ (if falsy d then []
                            else [CHR 0x0A] @ ''Details: '' @ serialize [] [] d)),
                       block_mimeType = None\<rparr>],
                     isError = Some True, errorCode = Some (axios_errorCode (Some s))\<rparr>
          \<and> (get_opt (Some d) ''message'' = None \<longrightarrow> msg = tm)
          \<and> (\<forall>m. get_opt (Some d) ''message'' = Some m \<and> falsy m \<longrightarrow> msg = tm)
          \<and> (\<forall>m. get_opt (Some d) ''message'' = Some (JStr m) \<and> m \<noteq> [] \<longrightarrow> msg = m)
          \<and> (\<forall>n. get_opt (Some d) ''message'' = Some (JNum n) \<and> n \<noteq> 0
                 \<longrightarrow> msg = show_int n)
          \<and> (get_opt (Some d) ''message'' = Some (JBool True) \<longrightarrow> msg = ''true'')
          \<and> (\<forall>kvs. get_opt (Some d) ''message'' = Some (JObj kvs)
                 \<longrightarrow> msg = ''[object Object]'')
          \<and> (\<forall>ss. get_opt (Some d) ''message'' = Some (JArr (map JStr ss))
                 \<longrightarrow> msg = join '','' ss))"
proof -
  from assms obtain msg where a: "axios_text (Some d) tm = Some msg"
    using axios_text_printable by blast
  let ?c = "axios_errorCode (Some s)"
  let ?E = "\<lparr>code = ?c,
             message = mcp_message L ?c (''DeepL API Error ('' @ show_nat s @ ''): '' @ msg),
             data = Some d\<rparr>"
  have c: "(s = 400 \<longrightarrow> ?c = InvalidParams) \<and> (401 \<le> s \<and> s \<le> 499 \<longrightarrow> ?c = InvalidRequest)
           \<and> (500 \<le> s \<longrightarrow> ?c = InternalError)"
    by (simp add: axios_errorCode_400 axios_errorCode_4xx axios_errorCode_5xx)
  have e: "mcpError_of L (http_failure tm s d) = Inr ?E"
    using a by (rule http_failure_mcpError)
  have r: "handleToolError L (http_failure tm s d)
           = Inr \<lparr>content = [\<lparr>block_type = ''text'',
                    block_text = Some (''Error: ''
                      @ mcp_message L ?c (''DeepL API Error ('' @ show_nat s @ ''): '' @ msg)
                      @ (if falsy d then []
                         else [CHR 0x0A] @ ''Details: '' @ serialize [] [] d)),
                    block_mimeType = None\<rparr>],
                  isError = Some True, errorCode = Some ?c\<rparr>"
    using handleToolError_Inr [OF e] by (simp add: error_text_details del: serialize.simps)
  have k1: "get_opt (Some d) ''message'' = None \<longrightarrow> msg = tm"
    using a by (auto simp add: axios_text_def)
  have k2: "\<forall>m. get_opt (Some d) ''message'' = Some m \<and> falsy m \<longrightarrow> msg = tm"
    using a by (auto simp add: axios_text_def truthy_falsy)
  have k3: "\<forall>m. get_opt (Some d) ''message'' = Some (JStr m) \<and> m \<noteq> [] \<longrightarrow> msg = m"
    using a by (auto simp add: axios_text_def)
  have k4: "\<forall>n. get_opt (Some d) ''message'' = Some (JNum n) \<and> n \<noteq> 0 \<longrightarrow> msg = show_int n"
    using a by (auto simp add: axios_text_def)
  have k5: "get_opt (Some d) ''message'' = Some (JBool True) \<longrightarrow> msg = ''true''"
    using a by (auto simp add: axios_text_def)
  have k6: "\<forall>kvs. get_opt (Some d) ''message'' = Some (JObj kvs) \<longrightarrow> msg = ''[object Object]''"
    using a by (auto simp add: axios_text_def split: if_splits)
  have j: "those (map (\<lambda>x. if x = JNull then Some [] else js_to_string x) (map JStr ss))
             = Some ss" for ss
    by (induction ss) simp_all
  have k7: "\<forall>ss. get_opt (Some d) ''message'' = Some (JArr (map JStr ss))
              \<longrightarrow> msg = join '','' ss"
    using a j by (auto simp add: axios_text_def)
  from e r k1 k2 k3 k4 k5 k6 k7 have
    "\<exists>msg.
            mcpError_of L (http_failure tm s d)
              = Inr \<lparr>code = axios_errorCode (Some s),
                     message = mcp_message L (axios_errorCode (Some s))
                                 (''DeepL API Error ('' @ show_nat s @ ''): '' @ msg),
                     data = Some d\<rparr>
          \<and> handleToolError L (http_failure tm s d)
              = Inr \<lparr>content = [\<lparr>block_type = ''text'',
                       block_text = Some (''Error: ''
                         @ mcp_message L (axios_errorCode (Some s))
                             (''DeepL API Error ('' @ show_nat s @ ''): '' @ msg)
                         @ (if falsy d then []
                            else [CHR 0x0A] @ ''Details: '' @ serialize [] [] d)),
                       block_mimeType = None\<rparr>],
                     isError = Some True, errorCode = Some (axios_errorCode (Some s))\<rparr>
          \<and> (get_opt (Some d) ''message'' = None \<longrightarrow> msg = tm)
          \<and> (\<forall>m. get_opt (Some d) ''message'' = Some m \<and> falsy m \<longrightarrow> msg = tm)
          \<and> (\<forall>m. get_opt (Some d) ''message'' = Some (JStr m) \<and> m \<noteq> [] \<longrightarrow> msg = m)
          \<and> (\<forall>n. get_opt (Some d) ''message'' = Some (JNum n) \<and> n \<noteq> 0
                 \<longrightarrow> msg = show_int n)
          \<and> (get_opt (Some d) ''message'' = Some (JBool True) \<longrightarrow> msg = ''true'')
          \<and> (\<forall>kvs. get_opt (Some d) ''message'' = Some (JObj kvs)
                 \<longrightarrow> msg = ''[object Object]'')
          \<and> (\<forall>ss. get_opt (Some d) ''message'' = Some (JArr (map JStr ss))
                 \<longrightarrow> msg = join '','' ss)"
    by (intro exI [of _ msg] conjI)
  with c show ?thesis by blast
qed

theorem http_failure_classified_witness:
  "printable_message (JObj [(''message'', JStr [])])
   \<and> handleToolError example_libs
         (http_failure ''Request failed with status code 400'' 400 (JObj [(''message'', JStr [])]))
       = Inr \<lparr>content = [\<lparr>block_type = ''text'',
                block_text = Some (''Error: MCP error -32602: DeepL API Error (400): Request failed with status code 400''
                  @ [CHR 0x0A] @ ''Details: {'' @ [CHR 0x22] @ ''message'' @ [CHR 0x22] @ '':''
                  @ [CHR 0x22, CHR 0x22] @ ''}''),
                block_mimeType = None\<rparr>],
              isError = Some True, errorCode = Some InvalidParams\<rparr>
   \<and> printable_message (JObj [(''message'', JStr ''Forbidden'')])
   \<and> handleToolError example_libs
         (http_failure ''Request failed with status code 403'' 403
            (JObj [(''message'', JStr ''Forbidden'')]))
       = Inr \<lparr>content = [\<lparr>block_type = ''text'',
                block_text = Some (''Error: MCP error -32600: DeepL API Error (403): Forbidden''
                  @ [CHR 0x0A] @ ''Details: {'' @ [CHR 0x22] @ ''message'' @ [CHR 0x22] @ '':''
                  @ [CHR 0x22] @ ''Forbidden'' @ [CHR 0x22] @ ''}''),
                block_mimeType = None\<rparr>],
              isError = Some True, errorCode = Some InvalidRequest\<rparr>
   \<and> printable_message (JObj [(''message'', JNum 7)])
   \<and> mcpError_of example_libs
         (http_failure ''Request failed with status code 500'' 500 (JObj [(''message'', JNum 7)]))
       = Inr \<lparr>code = InternalError,
              message = ''MCP error -32603: DeepL API Error (500): 7'',
              data = Some (JObj [(''message'', JNum 7)])\<rparr>
   \<and> printable_message (JStr [])
   \<and> handleToolError example_libs
         (http_failure ''Request failed with status code 502'' 502 (JStr []))
       = Inr \<lparr>content = [\<lparr>block_type = ''text'',
                block_text = Some ''Error: MCP error -32603: DeepL API Error (502): Request failed with status code 502'',
                block_mimeType = None\<rparr>],
              isError = Some True, errorCode = Some InternalError\<rparr>"
proof -
  have a: "printable_message (JObj [(''message'', JStr [])])"
    by (simp add: printable_message_def falsy_def)
  have b: "printable_message (JObj [(''message'', JStr ''Forbidden'')])"
    by (simp add: printable_message_def)
  have c: "printable_message (JObj [(''message'', JNum 7)])"
    by (simp add: printable_message_def)
  have d: "printable_message (JStr [])"
    by (simp add: printable_message_def)
  show ?thesis
    using a b c d
      http_failure_classified [OF a, where s = 400 and L = example_libs
         and tm = "''Request failed with status code 400''"]
      http_failure_classified [OF b, where s = 403 and L = example_libs
         and tm = "''Request failed with status code 403''"]
      http_failure_classified [OF c, where s = 500 and L = example_libs
         and tm = "''Request failed with status code 500''"]
      http_failure_classified [OF d, where s = 502 and L = example_libs
         and tm = "''Request failed with status code 502''"]
    by (simp add: falsy_def axios_errorCode_def example_libs_def ErrorCode_number_def
          show_int_def show_nat.simps digit_char_def quote_def quote_char_def)
qed


subsection \<open>C4: an unknown tool\<close>

text \<open>
  C4: for every tool name other than \<^verbatim>\<open>translate_text\<close> and \<^verbatim>\<open>list_languages\<close> the call
  returns the error response of a \<^verbatim>\<open>MethodNotFound\<close> error, which the normalizer takes as
  it is, and issues no upstream request. The call returns a response: nothing is thrown.
\<close>

theorem unknown_tool_MethodNotFound:
  assumes "name \<noteq> ''translate_text''" and "name \<noteq> ''list_languages''"
  shows "callTool L up name args
           = (Inr \<lparr>content = [\<lparr>block_type = ''text'',
                  block_text = Some (''Error: '' @ mcp_message L MethodNotFound
                                 (''Tool '' @ [CHR 0x27] @ name @ [CHR 0x27] @ '' not found.'')),
                  block_mimeType = None\<rparr>],
               isError = Some True, errorCode = Some MethodNotFound\<rparr>, [])
         \<and> mcpError_of L (Mcp (new_McpError L MethodNotFound
                 (''Tool '' @ [CHR 0x27] @ name @ [CHR 0x27] @ '' not found.'') None))
             = Inr (new_McpError L MethodNotFound
                      (''Tool '' @ [CHR 0x27] @ name @ [CHR 0x27] @ '' not found.'') None)"
  using assms
  by (simp add: callTool_def dispatch_def handleToolError_def error_text_def new_McpError_def
        Let_def)

theorem unknown_tool_MethodNotFound_witness:
  "''summarize'' \<noteq> ''translate_text'' \<and> ''summarize'' \<noteq> ''list_languages''
   \<and> callTool example_libs example_upstream ''summarize'' (Some example_args)
       = (Inr \<lparr>content = [\<lparr>block_type = ''text'',
              block_text = Some (''Error: MCP error -32601: Tool '' @ [CHR 0x27] @ ''summarize''
                                   @ [CHR 0x27] @ '' not found.''),
              block_mimeType = None\<rparr>],
           isError = Some True, errorCode = Some MethodNotFound\<rparr>, [])"
proof -
  have a: "''summarize'' \<noteq> ''translate_text''" and b: "''summarize'' \<noteq> ''list_languages''"
    by simp_all
  show ?thesis
    using a b unknown_tool_MethodNotFound [OF a b, of example_libs example_upstream
                                              "Some example_args"]
    by (simp add: example_libs_def ErrorCode_number_def show_int_def show_nat.simps
          digit_char_def)
qed

subsection \<open>C5: every failure becomes an error response\<close>

text \<open>
  C5 says that every failure raised during dispatch becomes a response with \<^verbatim>\<open>isError\<close>
  true and that no raw error leaves the dispatcher. \<^verbatim>\<open>handleToolError\<close> runs in the \<^verbatim>\<open>catch\<close>
  clause and prints the message of the upstream body in a template literal. When the
  upstream answers a valid request with status 400 and the body
  \<^verbatim>\<open>{"message":{"toString":1}}\<close>, printing that message throws a TypeError from inside the
  \<^verbatim>\<open>catch\<close> clause: the call ends with the TypeError and with no response.
\<close>

theorem handleToolError_throws_in_catch:
  "valid_TranslateRequest (Some example_args)
   \<and> callTool example_libs toString_upstream ''translate_text'' (Some example_args)
       = (Inl (OtherError ''Cannot convert object to primitive value''),
          [POST ''/v2/translate'' example_args])"
  by (simp add: callTool_def dispatch_def callTranslateText_def translate_body_def
        example_args_def toString_upstream_def handleToolError_def http_failure_def
        axios_text_def cannot_convert_def Let_def valid_TranslateRequest_def is_object_def
        is_string_sequence_def is_empty_sequence_def is_string_def)

subsection \<open>C6: the response of \<^verbatim>\<open>translate_text\<close>\<close>

text \<open>
  C6 says that parsing the content block back yields a sequence as long as the \<^verbatim>\<open>text\<close>
  of the request. The handler serializes whatever \<^verbatim>\<open>translations\<close> the upstream
  returned and never compares it with the request: when the upstream answers a request
  for one text with no translation, the block parses to the empty sequence.
\<close>

theorem translate_response_length_mismatch:
  "valid_TranslateRequest (Some example_args)
   \<and> sequence_length (get_opt (Some example_args) ''text'') = Some 1
   \<and> fst (callTool example_libs no_translations_upstream ''translate_text'' (Some example_args))
       = Inr \<lparr>content = [\<lparr>block_type = ''text'', block_text = Some ''[]'',
                           block_mimeType = Some ''application/json''\<rparr>],
              isError = None, errorCode = None\<rparr>
   \<and> sequence_length (JSON_parse ''[]'') = Some 0"
  by (simp add: callTool_def dispatch_def callTranslateText_def translate_body_def
        json_content_def JSON_stringify_def example_args_def no_translations_upstream_def
        valid_TranslateRequest_def is_object_def is_string_sequence_def is_empty_sequence_def
        is_string_def sequence_length_def JSON_parse_def numeral_2_eq_2 skip_ws_def is_ws_def)

text \<open>
  C6 as amended: when the upstream answers a valid request with a body whose
  \<^verbatim>\<open>translations\<close> is a sequence, the handler returns exactly one content block, of type
  text and mime type \<^verbatim>\<open>application/json\<close>, whose text is that sequence serialized with
  an indentation of two blanks; parsing the text back yields the upstream sequence
  itself, element for element and in order. It is as long as the \<^verbatim>\<open>text\<close> of the request
  whenever the upstream returned one translation for each text.
\<close>

theorem translate_response_roundtrip:
  assumes "valid_TranslateRequest args"
    and "\<forall>body. up (POST ''/v2/translate'' body) = Resolved d"
    and "get_opt (Some d) ''translations'' = Some (JArr ts)"
  shows "fst (callTool L up ''translate_text'' args)
           = Inr \<lparr>content = [\<lparr>block_type = ''text'',
                  block_text = Some (serialize ''  '' [] (JArr ts)),
                  block_mimeType = Some ''application/json''\<rparr>],
               isError = None, errorCode = None\<rparr>
         \<and> JSON_parse (serialize ''  '' [] (JArr ts)) = Some (JArr ts)
         \<and> sequence_length (JSON_parse (serialize ''  '' [] (JArr ts))) = Some (length ts)
         \<and> (sequence_length (get_opt args ''text'') = Some (length ts) \<longrightarrow>
              sequence_length (JSON_parse (serialize ''  '' [] (JArr ts)))
                = sequence_length (get_opt args ''text''))"
proof -
  from assms(1) obtain v where v: "TranslateTextInputSchema_parse args = Inr v"
    using TranslateTextInputSchema_parse_valid by blast
  from assms(3) have d: "d \<noteq> JNull" by auto
  have r: "fst (callTool L up ''translate_text'' args)
           = Inr \<lparr>content = [\<lparr>block_type = ''text'',
                  block_text = Some (serialize ''  '' [] (JArr ts)),
                  block_mimeType = Some ''application/json''\<rparr>],
               isError = None, errorCode = None\<rparr>"
    using assms(2) d
    by (simp add: callTool_def dispatch_def callTranslateText_def v Let_def assms(3)
          json_content_def JSON_stringify_2 del: get_opt.simps serialize.simps)
  have "blank ''  ''" by (simp add: blank_def is_ws_def)
  then have p: "JSON_parse (serialize ''  '' [] (JArr ts)) = Some (JArr ts)"
    by (rule JSON_parse_serialize)
  show ?thesis
    using r p by (simp add: sequence_length_def del: serialize.simps)
qed

theorem translate_response_roundtrip_witness:
  "valid_TranslateRequest (Some example_args)
   \<and> (\<forall>body. example_upstream (POST ''/v2/translate'' body)
                = Resolved (JObj [(''translations'', JArr example_translations)]))
   \<and> get_opt (Some (JObj [(''translations'', JArr example_translations)])) ''translations''
       = Some (JArr example_translations)
   \<and> fst (callTool example_libs example_upstream ''translate_text'' (Some example_args))
       = Inr \<lparr>content = [\<lparr>block_type = ''text'',
                block_text = Some (serialize ''  '' [] (JArr example_translations)),
                block_mimeType = Some ''application/json''\<rparr>],
              isError = None, errorCode = None\<rparr>
   \<and> JSON_parse (serialize ''  '' [] (JArr example_translations))
       = Some (JArr example_translations)
   \<and> sequence_length (JSON_parse (serialize ''  '' [] (JArr example_translations)))
       = sequence_length (get_opt (Some example_args) ''text'')"
proof -
  have a: "valid_TranslateRequest (Some example_args)"
    by (simp add: example_args_def valid_TranslateRequest_def
        is_object_def is_string_sequence_def is_empty_sequence_def is_string_def)
  have b: "\<forall>body. example_upstream (POST ''/v2/translate'' body)
                = Resolved (JObj [(''translations'', JArr example_translations)])"
    by (simp add: example_upstream_def)
  have c: "get_opt (Some (JObj [(''translations'', JArr example_translations)])) ''translations''
       = Some (JArr example_translations)"
    by simp
  have l: "sequence_length (get_opt (Some example_args) ''text'')
             = Some (length example_translations)"
    by (simp add: sequence_length_def example_args_def example_translations_def)
  show ?thesis
    using a b c l translate_response_roundtrip [OF a b c, of example_libs]
    by (simp add: sequence_length_def del: serialize.simps get_opt.simps)
qed

subsection \<open>C7: the \<^verbatim>\<open>type\<close> of \<^verbatim>\<open>list_languages\<close>\<close>

text \<open>
  C7 speaks of every invocation of \<^verbatim>\<open>list_languages\<close>, and its \<^verbatim>\<open>type\<close> is absent when the
  invocation has no arguments at all. The handler gives the arguments to a \<^verbatim>\<open>z.object\<close>
  schema, which wants a mapping: without arguments the validator rejects the call,
  although no \<^verbatim>\<open>type\<close> is present, and no GET is issued.
\<close>

theorem list_languages_without_arguments:
  "get_opt None ''type'' = None
   \<and> type_allowed (get_opt None ''type'')
   \<and> snd (callTool example_libs example_upstream ''list_languages'' None) = []
   \<and> map_sum id errorCode (fst (callTool example_libs example_upstream ''list_languages'' None))
       = Inr (Some InvalidParams)"
  by (simp add: type_allowed_def callTool_def dispatch_def callListLanguages_def
        handleToolError_def new_McpError_def)

text \<open>
  C7 as amended: for an invocation whose arguments are a mapping, the empty one
  included, the validator accepts a \<^verbatim>\<open>type\<close> that is absent, \<^verbatim>\<open>source\<close> or \<^verbatim>\<open>target\<close>, and then
  the call issues exactly one request, a GET to \<^verbatim>\<open>/v2/languages\<close> that carries the query
  parameter \<^verbatim>\<open>type\<close>, with the given value, exactly when the arguments have a \<^verbatim>\<open>type\<close>. Every
  other invocation (another \<^verbatim>\<open>type\<close>, arguments that are no mapping, no arguments) is
  rejected with an \<^verbatim>\<open>InvalidParams\<close> error response, and no request is issued.
\<close>

theorem list_languages_type_param:
  "(is_object args \<and> type_allowed (get_opt args ''type'') \<longrightarrow>
      snd (callTool L up ''list_languages'' args)
        = [GET ''/v2/languages''
             (case get_opt args ''type'' of Some (JStr t) \<Rightarrow> [(''type'', t)] | _ \<Rightarrow> [])])
   \<and> (\<not> (is_object args \<and> type_allowed (get_opt args ''type'')) \<longrightarrow>
        (\<exists>issues r. callTool L up ''list_languages'' args = (Inr r, [])
           \<and> handleToolError L (Zod issues) = Inr r
           \<and> errorCode r = Some InvalidParams
           \<and> isError r = Some True))"
proof (intro conjI impI)
  assume a: "is_object args \<and> type_allowed (get_opt args ''type'')"
  then have "\<exists>t. get_opt args ''type'' = map_option JStr t"
    by (metis type_allowed_def option.simps(8,9))
  then obtain t where t: "get_opt args ''type'' = map_option JStr t" ..
  with a have p: "ListLanguagesInputSchema_parse args = Inr t"
    by (simp add: ListLanguagesInputSchema_parse_Inr)
  from a t have ne: "t \<noteq> Some []"
    by (auto simp add: type_allowed_def)
  have "snd (callTool L up ''list_languages'' args)
          = [GET ''/v2/languages'' (languages_params t)]"
    by (simp add: callTool_calls dispatch_def callListLanguages_def p Let_def
          split: upstream_outcome.splits)
  moreover have "languages_params t
      = (case get_opt args ''type'' of Some (JStr t) \<Rightarrow> [(''type'', t)] | _ \<Rightarrow> [])"
    using ne by (cases t) (simp_all add: t languages_params_def)
  ultimately show "snd (callTool L up ''list_languages'' args)
        = [GET ''/v2/languages''
             (case get_opt args ''type'' of Some (JStr t) \<Rightarrow> [(''type'', t)] | _ \<Rightarrow> [])]"
    by simp
next
  assume "\<not> (is_object args \<and> type_allowed (get_opt args ''type''))"
  then have "\<not> (\<exists>t. ListLanguagesInputSchema_parse args = Inr t)"
    unfolding ListLanguagesInputSchema_parse_Inr by blast
  then obtain issues where i: "ListLanguagesInputSchema_parse args = Inl issues"
    by (cases "ListLanguagesInputSchema_parse args") auto
  let ?E = "new_McpError L InvalidParams ''Input validation failed''
              (Some (JArr (map (issue_json L) issues)))"
  let ?r = "\<lparr>content = [\<lparr>block_type = ''text'', block_text = Some (error_text ?E),
                           block_mimeType = None\<rparr>],
              isError = Some True, errorCode = Some (code ?E)\<rparr>"
  have h: "handleToolError L (Zod issues) = Inr ?r"
    by (rule handleToolError_Inr) simp
  have "callTool L up ''list_languages'' args = (Inr ?r, [])"
    using i h by (simp add: callTool_def dispatch_def callListLanguages_def)
  moreover have "errorCode ?r = Some InvalidParams"
    by (simp add: new_McpError_def)
  moreover have "isError ?r = Some True"
    by simp
  ultimately show "\<exists>issues r. callTool L up ''list_languages'' args = (Inr r, [])
           \<and> handleToolError L (Zod issues) = Inr r
           \<and> errorCode r = Some InvalidParams
           \<and> isError r = Some True"
    using h by blast
qed

theorem list_languages_type_param_witness:
  "snd (callTool example_libs example_upstream ''list_languages''
          (Some (JObj [(''type'', JStr ''source'')])))
     = [GET ''/v2/languages'' [(''type'', ''source'')]]
   \<and> snd (callTool example_libs example_upstream ''list_languages'' (Some (JObj [])))
     = [GET ''/v2/languages'' []]
   \<and> (\<exists>issues r. callTool example_libs example_upstream ''list_languages''
                     (Some (JObj [(''type'', JStr ''both'')])) = (Inr r, [])
           \<and> handleToolError example_libs (Zod issues) = Inr r
           \<and> errorCode r = Some InvalidParams
           \<and> isError r = Some True)
   \<and> (\<exists>issues r. callTool example_libs example_upstream ''list_languages'' None = (Inr r, [])
           \<and> handleToolError example_libs (Zod issues) = Inr r
           \<and> errorCode r = Some InvalidParams
           \<and> isError r = Some True)"
  using list_languages_type_param
          [of "Some (JObj [(''type'', JStr ''source'')])" example_libs example_upstream]
    list_languages_type_param [of "Some (JObj [])" example_libs example_upstream]
    list_languages_type_param
          [of "Some (JObj [(''type'', JStr ''both'')])" example_libs example_upstream]
    list_languages_type_param [of None example_libs example_upstream]
  by (simp add: is_object_def type_allowed_def)

subsection \<open>C8: a failed validation\<close>

text \<open>
  C8: when the schema of either tool rejects the arguments, the call answers with the
  response of an \<^verbatim>\<open>InvalidParams\<close> error that is built with the message
  \<^verbatim>\<open>Input validation failed\<close> and has the list of the issues as its details; no upstream
  request is issued.
\<close>

theorem validation_failure_normalized:
  "(TranslateTextInputSchema_parse args = Inl issues \<longrightarrow>
      callTool L up ''translate_text'' args = (handleToolError L (Zod issues), []))
   \<and> (ListLanguagesInputSchema_parse args = Inl issues \<longrightarrow>
      callTool L up ''list_languages'' args = (handleToolError L (Zod issues), []))
   \<and> mcpError_of L (Zod issues)
       = Inr \<lparr>code = InvalidParams,
              message = mcp_message L InvalidParams ''Input validation failed'',
              data = Some (JArr (map (issue_json L) issues))\<rparr>
   \<and> handleToolError L (Zod issues)
       = Inr \<lparr>content = [\<lparr>block_type = ''text'',
              block_text = Some (''Error: '' @ mcp_message L InvalidParams ''Input validation failed''
                                 @ [CHR 0x0A] @ ''Details: ''
                                 @ serialize [] [] (JArr (map (issue_json L) issues))),
              block_mimeType = None\<rparr>],
          isError = Some True, errorCode = Some InvalidParams\<rparr>"
  by (simp add: callTool_def dispatch_def callTranslateText_def callListLanguages_def
        handleToolError_def error_text_def new_McpError_def JSON_stringify_def Let_def)

theorem validation_failure_normalized_witness:
  "TranslateTextInputSchema_parse (Some empty_text_args)
     = Inl [Too_small [Key ''text''] 1 ''The 'text' array cannot be empty.'']
   \<and> callTool example_libs example_upstream ''translate_text'' (Some empty_text_args)
       = (handleToolError example_libs
            (Zod [Too_small [Key ''text''] 1 ''The 'text' array cannot be empty.'']), [])
   \<and> ListLanguagesInputSchema_parse (Some (JObj [(''type'', JStr ''both'')]))
       = Inl [Invalid_enum_value [Key ''type''] [''source'', ''target''] ''both'']
   \<and> callTool example_libs example_upstream ''list_languages''
         (Some (JObj [(''type'', JStr ''both'')]))
       = (handleToolError example_libs
            (Zod [Invalid_enum_value [Key ''type''] [''source'', ''target''] ''both'']), [])"
proof -
  have a: "TranslateTextInputSchema_parse (Some empty_text_args)
     = Inl [Too_small [Key ''text''] 1 ''The 'text' array cannot be empty.'']"
    by (simp add: empty_text_args_def)
  have b: "ListLanguagesInputSchema_parse (Some (JObj [(''type'', JStr ''both'')]))
       = Inl [Invalid_enum_value [Key ''type''] [''source'', ''target''] ''both'']"
    by simp
  show ?thesis
    using a b
      validation_failure_normalized [of "Some empty_text_args"
            "[Too_small [Key ''text''] 1 ''The 'text' array cannot be empty.'']"
            example_libs example_upstream]
      validation_failure_normalized [of "Some (JObj [(''type'', JStr ''both'')])"
            "[Invalid_enum_value [Key ''type''] [''source'', ''target''] ''both'']"
            example_libs example_upstream]
    by simp
qed

subsection \<open>C9: the text of an error response\<close>

text \<open>
  C9 says that the line of details is appended exactly when structured details exist on
  the error. The handler's test is \<^verbatim>\<open>mcpError.data ? ... : ''\<close>. A text body, which is not
  structured, gets the line; a body that is the empty string is the data of the error,
  and gets none.
\<close>

theorem details_line_not_by_structure:
  "\<not> structured (JStr ''Bad Gateway'')
   \<and> handleToolError example_libs
         (http_failure ''Request failed with status code 502'' 502 (JStr ''Bad Gateway''))
       = Inr \<lparr>content = [\<lparr>block_type = ''text'',
                block_text = Some (''Error: MCP error -32603: DeepL API Error (502): Request failed with status code 502''
                  @ [CHR 0x0A] @ ''Details: '' @ [CHR 0x22] @ ''Bad Gateway'' @ [CHR 0x22]),
                block_mimeType = None\<rparr>],
              isError = Some True, errorCode = Some InternalError\<rparr>
   \<and> mcpError_of example_libs
         (http_failure ''Request failed with status code 502'' 502 (JStr []))
       = Inr \<lparr>code = InternalError,
              message = ''MCP error -32603: DeepL API Error (502): Request failed with status code 502'',
              data = Some (JStr [])\<rparr>
   \<and> handleToolError example_libs
         (http_failure ''Request failed with status code 502'' 502 (JStr []))
       = Inr \<lparr>content = [\<lparr>block_type = ''text'',
                block_text = Some ''Error: MCP error -32603: DeepL API Error (502): Request failed with status code 502'',
                block_mimeType = None\<rparr>],
              isError = Some True, errorCode = Some InternalError\<rparr>"
  by (simp add: structured_def handleToolError_def error_text_def JSON_stringify_def
        http_failure_def new_McpError_def Let_def status_text_def axios_text_def
        axios_errorCode_def example_libs_def ErrorCode_number_def show_int_def show_nat.simps
        digit_char_def quote_def quote_char_def)

text \<open>
  C9 as amended: every error that can be printed is normalized, and the response to the
  normalized error has exactly one content block, whose text is \<^verbatim>\<open>Error: <message>\<close> with the message of the error, followed by a line
  \<^verbatim>\<open>Details: <json>\<close>, the compact serialization of the details of the error, exactly when
  the error has details that are not \<^verbatim>\<open>null\<close>, \<^verbatim>\<open>false\<close>, \<^verbatim>\<open>0\<close> or the empty string. Structured
  details, an array or an object, always get the line; absent details never do.
\<close>

theorem error_text_form:
  assumes "printable_error e"
  shows "\<exists>E. mcpError_of L e = Inr E
         \<and> handleToolError L e
           = Inr \<lparr>content = [\<lparr>block_type = ''text'',
                    block_text = Some (''Error: '' @ message E
                      @ (case data E of
                           None \<Rightarrow> []
                         | Some d \<Rightarrow> if falsy d then []
                                     else [CHR 0x0A] @ ''Details: '' @ serialize [] [] d)),
                    block_mimeType = None\<rparr>],
                  isError = Some True, errorCode = Some (code E)\<rparr>
         \<and> (\<forall>d. data E = Some d \<and> structured d \<longrightarrow> \<not> falsy d)"
proof -
  from assms obtain E where E: "mcpError_of L e = Inr E"
    using mcpError_of_printable by blast
  have "handleToolError L e
           = Inr \<lparr>content = [\<lparr>block_type = ''text'',
                    block_text = Some (''Error: '' @ message E
                      @ (case data E of
                           None \<Rightarrow> []
                         | Some d \<Rightarrow> if falsy d then []
                                     else [CHR 0x0A] @ ''Details: '' @ serialize [] [] d)),
                    block_mimeType = None\<rparr>],
                  isError = Some True, errorCode = Some (code E)\<rparr>"
    using handleToolError_Inr [OF E] by (simp add: error_text_details)
  moreover have "\<forall>d. data E = Some d \<and> structured d \<longrightarrow> \<not> falsy d"
    by (auto simp add: structured_def falsy_def)
  ultimately show ?thesis using E by blast
qed

theorem error_text_form_witness:
  "printable_error (http_failure ''Request failed with status code 403'' 403
          (JObj [(''message'', JStr ''Forbidden'')]))
   \<and> handleToolError example_libs
       (http_failure ''Request failed with status code 403'' 403
          (JObj [(''message'', JStr ''Forbidden'')]))
     = Inr \<lparr>content = [\<lparr>block_type = ''text'',
              block_text = Some (''Error: MCP error -32600: DeepL API Error (403): Forbidden''
                @ [CHR 0x0A] @ ''Details: {'' @ [CHR 0x22] @ ''message'' @ [CHR 0x22] @ '':''
                @ [CHR 0x22] @ ''Forbidden'' @ [CHR 0x22] @ ''}''),
              block_mimeType = None\<rparr>],
            isError = Some True, errorCode = Some InvalidRequest\<rparr>
   \<and> printable_error (network_failure ''Network Error'')
   \<and> handleToolError example_libs (network_failure ''Network Error'')
     = Inr \<lparr>content = [\<lparr>block_type = ''text'',
              block_text = Some ''Error: MCP error -32603: DeepL API Error (undefined): Network Error'',
              block_mimeType = None\<rparr>],
            isError = Some True, errorCode = Some InternalError\<rparr>"
proof -
  have a: "printable_error (http_failure ''Request failed with status code 403'' 403
          (JObj [(''message'', JStr ''Forbidden'')]))"
    by (simp add: printable_error_def http_failure_def printable_message_def)
  have b: "printable_error (network_failure ''Network Error'')"
    by (simp add: printable_error_def network_failure_def)
  have ea: "mcpError_of example_libs
       (http_failure ''Request failed with status code 403'' 403
          (JObj [(''message'', JStr ''Forbidden'')]))
     = Inr \<lparr>code = InvalidRequest,
            message = ''MCP error -32600: DeepL API Error (403): Forbidden'',
            data = Some (JObj [(''message'', JStr ''Forbidden'')])\<rparr>"
    by (simp add: http_failure_def new_McpError_def Let_def status_text_def axios_text_def
          axios_errorCode_def example_libs_def ErrorCode_number_def show_int_def
          show_nat.simps digit_char_def)
  have eb: "mcpError_of example_libs (network_failure ''Network Error'')
     = Inr \<lparr>code = InternalError,
            message = ''MCP error -32603: DeepL API Error (undefined): Network Error'',
            data = None\<rparr>"
    by (simp add: network_failure_def new_McpError_def Let_def status_text_def axios_text_def
          axios_errorCode_def example_libs_def ErrorCode_number_def show_int_def
          show_nat.simps digit_char_def)
  show ?thesis
    using a b error_text_form [OF a, of example_libs] error_text_form [OF b, of example_libs]
    by (simp add: ea eb falsy_def quote_def quote_char_def)
qed

subsection \<open>C10: an upstream failure without a response\<close>

text \<open>
  C10: an axios error without a response has no status. It is classified as
  \<^verbatim>\<open>InternalError\<close>, its text is built from the message of the axios error, after
  \<^verbatim>\<open>DeepL API Error (undefined): \<close>, and it has no details.
\<close>

theorem network_failure_InternalError:
  "mcpError_of L (network_failure tm)
     = Inr \<lparr>code = InternalError,
            message = mcp_message L InternalError (''DeepL API Error (undefined): '' @ tm),
            data = None\<rparr>
   \<and> handleToolError L (network_failure tm)
        = Inr \<lparr>content = [\<lparr>block_type = ''text'',
               block_text = Some (''Error: '' @ mcp_message L InternalError
                                    (''DeepL API Error (undefined): '' @ tm)),
               block_mimeType = None\<rparr>],
           isError = Some True, errorCode = Some InternalError\<rparr>"
  by (simp add: network_failure_def handleToolError_def error_text_def new_McpError_def Let_def
        axios_errorCode_def axios_text_def status_text_def)

end
